theory Spec2Isabelle
  imports Main "HOL-Library.Sublist"
begin

section \<open>Strings and arrays of the host language\<close>

text \<open>
  The edit tool (\<^verbatim>\<open>src/tools/edit.ts\<close>) works on JavaScript strings.  A string is
  modelled as a HOL \<^typ>\<open>string\<close>; one \<^typ>\<open>char\<close> stands for one code unit (only
  the code units below 256 are representable).  The library methods the tool calls
  are written out with the results ECMAScript gives them, including the \<open>-1\<close> of a
  failed search and the clamping of indices.
\<close>

subsection \<open>\<^verbatim>\<open>String.prototype.indexOf\<close> and \<^verbatim>\<open>substring\<close>\<close>

text \<open>
  \<^verbatim>\<open>content.indexOf(s)\<close>: the least position at which \<open>s\<close> starts in \<open>content\<close>,
  or \<open>-1\<close>.  The empty string starts at every position, also at the end.
\<close>

fun indexOf_from :: "'a list \<Rightarrow> 'a list \<Rightarrow> nat \<Rightarrow> int" where
  "indexOf_from [] s i = (if s = [] then int i else - 1)"
| "indexOf_from (c # cs) s i =
     (if prefix s (c # cs) then int i else indexOf_from cs s (Suc i))"

definition indexOf :: "'a list \<Rightarrow> 'a list \<Rightarrow> int" where
  "indexOf content s = indexOf_from content s 0"

text \<open>
  \<^verbatim>\<open>s.substring(a, b)\<close>: both indices are clamped to \<open>0 .. length\<close> and swapped
  when \<open>a > b\<close>.  \<^verbatim>\<open>s.substring(a)\<close> runs to the end of the string.
\<close>

definition substring :: "'a list \<Rightarrow> int \<Rightarrow> int \<Rightarrow> 'a list" where
  "substring s a b =
     (let len = int (length s);
          finalStart = min (max a 0) len;
          finalEnd = min (max b 0) len;
          from = min finalStart finalEnd;
          to = max finalStart finalEnd
      in take (nat (to - from)) (drop (nat from) s))"

definition substring_from :: "'a list \<Rightarrow> int \<Rightarrow> 'a list" where
  "substring_from s a = substring s a (int (length s))"

subsection \<open>\<^verbatim>\<open>split\<close>, \<^verbatim>\<open>join\<close>, \<^verbatim>\<open>trim\<close>, \<^verbatim>\<open>Array.prototype.indexOf\<close> and \<^verbatim>\<open>slice\<close>\<close>

text \<open>
  \<^verbatim>\<open>s.split('\n')\<close>: the pieces between line feeds; the result is never empty
  (the empty string gives one empty piece).
\<close>

fun split_nl :: "string \<Rightarrow> string list" where
  "split_nl [] = [[]]"
| "split_nl (c # cs) =
     (if c = CHR 0x0A then [] # split_nl cs
      else (case split_nl cs of [] \<Rightarrow> [[c]] | l # ls \<Rightarrow> (c # l) # ls))"

text \<open>\<^verbatim>\<open>xs.join('\n')\<close>: the empty array gives the empty string.\<close>

fun join_nl :: "string list \<Rightarrow> string" where
  "join_nl [] = []"
| "join_nl [l] = l"
| "join_nl (l # m # ls) = l @ CHR 0x0A # join_nl (m # ls)"

text \<open>
  \<^verbatim>\<open>s.trim()\<close> removes white space and line terminators at both ends.  Among the
  code units below 256 these are TAB, LF, VT, FF, CR, SP and NBSP.
\<close>

definition isWhiteSpace :: "char \<Rightarrow> bool" where
  "isWhiteSpace c \<longleftrightarrow>
     c \<in> {CHR 0x09, CHR 0x0A, CHR 0x0B, CHR 0x0C, CHR 0x0D, CHR 0x20, CHR 0xA0}"

definition trim :: "string \<Rightarrow> string" where
  "trim s = rev (dropWhile isWhiteSpace (rev (dropWhile isWhiteSpace s)))"

text \<open>
  \<^verbatim>\<open>xs.indexOf(x)\<close> on an array: the least index holding \<open>x\<close>, or \<open>-1\<close>.
\<close>

fun arrayIndexOf_from :: "'a list \<Rightarrow> 'a \<Rightarrow> nat \<Rightarrow> int" where
  "arrayIndexOf_from [] x i = - 1"
| "arrayIndexOf_from (y # ys) x i =
     (if y = x then int i else arrayIndexOf_from ys x (Suc i))"

definition arrayIndexOf :: "'a list \<Rightarrow> 'a \<Rightarrow> int" where
  "arrayIndexOf xs x = arrayIndexOf_from xs x 0"

text \<open>
  \<^verbatim>\<open>xs.slice(a, b)\<close>: a negative index counts from the end, every index is clamped
  to \<open>0 .. length\<close>, and the result is empty when the start is not before the end.
\<close>

definition slice :: "'a list \<Rightarrow> int \<Rightarrow> int \<Rightarrow> 'a list" where
  "slice xs a b =
     (let len = int (length xs);
          k = (if a < 0 then max (len + a) 0 else min a len);
          final = (if b < 0 then max (len + b) 0 else min b len)
      in take (nat (final - k)) (drop (nat k) xs))"


section \<open>The block parser\<close>

record SearchReplace =
  search :: string
  replace :: string

record EditBlock =
  filePath :: string
  searchReplace :: SearchReplace

text \<open>A thrown \<^verbatim>\<open>Error\<close> object, identified by its message.\<close>

datatype error = Error string

definition SEARCH_MARKER :: string where
  "SEARCH_MARKER = ''<<<<<<< SEARCH''"

definition DIVIDER_MARKER :: string where
  "DIVIDER_MARKER = ''=======''"

definition REPLACE_MARKER :: string where
  "REPLACE_MARKER = ''>>>>>>> REPLACE''"

definition format_error :: error where
  \<open>format_error = Error
     ''Invalid edit block format. REQUIRED: Exact "<<<<<<< SEARCH", "=======", and ">>>>>>> REPLACE" markers''\<close>

text \<open>
  \<^verbatim>\<open>parseEditBlock\<close>: the rejected promise is \<open>Inl\<close>, the resolved one \<open>Inr\<close>.
  \<^verbatim>\<open>lines[0]\<close> always exists, since \<open>split_nl\<close> never returns the empty array.
\<close>

definition parseEditBlock :: "string \<Rightarrow> error + EditBlock" where
  "parseEditBlock blockContent =
     (let lines = split_nl blockContent;
          filePath = trim (lines ! 0);
          searchStart = arrayIndexOf lines SEARCH_MARKER;
          divider = arrayIndexOf lines DIVIDER_MARKER;
          replaceEnd = arrayIndexOf lines REPLACE_MARKER
      in if searchStart = - 1 \<or> divider = - 1 \<or> replaceEnd = - 1
         then Inl format_error
         else Inr \<lparr>filePath = filePath,
                   searchReplace =
                     \<lparr>search = join_nl (slice lines (searchStart + 1) divider),
                      replace = join_nl (slice lines (divider + 1) replaceEnd)\<rparr>\<rparr>)"


section \<open>The host: file system, shell, console\<close>

text \<open>
  The engines act on the outside world through Node's \<^verbatim>\<open>fs/promises\<close>, through
  \<^verbatim>\<open>child_process.exec\<close> and through the console.  The world is passed explicitly.
  \<^item> \<open>files\<close> maps the path of a regular file to its text, \<open>dirs\<close> is the set of
    directories.  A path is the string the program uses; two spellings of one file are
    not identified.
  \<^item> \<open>repo\<close> is the state the external versioning tool keeps for a working directory:
    the name and the text of the one file committed there.  A directory with such a
    state is the root of a work tree.
  \<^item> \<open>trace\<close> records, in order, every engine entered, every file-system call, every
    command line handed to the shell and every console message.  No function of the
    program reads it.
\<close>

datatype fsop =
    Stat string
  | ReadText string
  | WriteText string
  | Mkdir string
  | CopyFile string string
  | ReadFile string
  | WriteFile string
  | Rm string

datatype event =
    Enter string
  | Sys fsop
  | Exec string
  | ConsoleWarn string
  | ConsoleError string

record world =
  files :: "string \<rightharpoonup> string"
  dirs :: "string set"
  repo :: "string \<rightharpoonup> string \<times> string"
  trace :: "event list"

text \<open>
  What the program cannot decide is a parameter: the temporary directory and the clock,
  \<^verbatim>\<open>path.join\<close>, the number of bytes a text occupies on disk and the size the file
  system reports for a directory (\<^verbatim>\<open>stats.size\<close>), which file-system calls fail
  (\<open>fault\<close>, with the error thrown), and the shell: \<open>exec\<close> takes a command line and the
  world and gives the rejection or the standard output, and the world the command
  leaves behind.
\<close>

record host =
  os_tmpdir :: string
  date_now :: nat
  path_join :: "string \<Rightarrow> string \<Rightarrow> string"
  byteLength :: "string \<Rightarrow> nat"
  dirSize :: "string \<Rightarrow> nat"
  fault :: "fsop \<Rightarrow> world \<Rightarrow> error option"
  exec :: "string \<Rightarrow> world \<Rightarrow> (error + string) \<times> world"

subsection \<open>Promises\<close>

text \<open>
  An \<^verbatim>\<open>async\<close> computation takes the world and gives a rejection (\<open>Inl\<close>) or a value
  (\<open>Inr\<close>) together with the new world.  \<open>await\<close> sequences, \<open>try_catch\<close> and
  \<open>try_finally\<close> are the statements of the same name; a \<^verbatim>\<open>finally\<close> block that
  completes normally leaves the outcome of the \<^verbatim>\<open>try\<close> block in place.
\<close>

type_synonym 'a io = "world \<Rightarrow> (error + 'a) \<times> world"

definition resolved :: "'a \<Rightarrow> 'a io" where
  "resolved x w = (Inr x, w)"

definition rejected :: "error \<Rightarrow> 'a io" where
  "rejected e w = (Inl e, w)"

definition await :: "'a io \<Rightarrow> ('a \<Rightarrow> 'b io) \<Rightarrow> 'b io" where
  "await m f w = (case m w of (Inl e, w') \<Rightarrow> (Inl e, w') | (Inr x, w') \<Rightarrow> f x w')"

definition try_catch :: "'a io \<Rightarrow> (error \<Rightarrow> 'a io) \<Rightarrow> 'a io" where
  "try_catch m handler w =
     (case m w of (Inl e, w') \<Rightarrow> handler e w' | (Inr x, w') \<Rightarrow> (Inr x, w'))"

definition try_finally :: "'a io \<Rightarrow> unit io \<Rightarrow> 'a io" where
  "try_finally m cleanup w =
     (case m w of (r, w') \<Rightarrow>
        (case cleanup w' of (Inl e, w'') \<Rightarrow> (Inl e, w'') | (Inr u, w'') \<Rightarrow> (r, w'')))"

definition emit :: "event \<Rightarrow> unit io" where
  "emit ev w = (Inr (), w\<lparr>trace := trace w @ [ev]\<rparr>)"

definition console_warn :: "string \<Rightarrow> unit io" where
  "console_warn s = emit (ConsoleWarn s)"

definition console_error :: "string \<Rightarrow> unit io" where
  "console_error s = emit (ConsoleError s)"

text \<open>\<^verbatim>\<open>error.message\<close>, and \<^verbatim>\<open>String(error)\<close> as a template literal renders it.\<close>

fun message :: "error \<Rightarrow> string" where
  "message (Error m) = m"

fun error_toString :: "error \<Rightarrow> string" where
  "error_toString (Error m) = (if m = [] then ''Error'' else ''Error: '' @ m)"

subsection \<open>File-system calls\<close>

text \<open>
  Every call is recorded, then fails with the error the host injects, if any, without
  effect; otherwise it has its plain effect.  \<^verbatim>\<open>stat\<close> succeeds on a file and on a
  directory and fails with \<^verbatim>\<open>ENOENT\<close> on a missing path.  Reading or copying fails
  with \<^verbatim>\<open>ENOENT\<close> on a missing path and with \<^verbatim>\<open>EISDIR\<close> on a directory; the message
  of a failed copy names both paths.  \<^verbatim>\<open>mkdir\<close> is called with \<^verbatim>\<open>recursive: true\<close> and
  \<^verbatim>\<open>rm\<close> with \<^verbatim>\<open>recursive: true, force: true\<close>: neither fails on an existing or a
  missing path, and \<^verbatim>\<open>rm\<close> removes the path and everything below it.
\<close>

definition sys :: "host \<Rightarrow> fsop \<Rightarrow> 'a io \<Rightarrow> 'a io" where
  "sys h op act w =
     (let w1 = w\<lparr>trace := trace w @ [Sys op]\<rparr>
      in case fault h op w of Some e \<Rightarrow> (Inl e, w1) | None \<Rightarrow> act w1)"

definition quoted :: "string \<Rightarrow> string" where
  "quoted p = [CHR 0x27] @ p @ [CHR 0x27]"

definition enoent :: "string \<Rightarrow> string \<Rightarrow> error" where
  "enoent call p =
     Error (''ENOENT: no such file or directory, '' @ call @ '' '' @ quoted p)"

definition eisdir :: "string \<Rightarrow> error" where
  "eisdir call = Error (''EISDIR: illegal operation on a directory, '' @ call)"

definition copy_failed :: "string \<Rightarrow> string \<Rightarrow> world \<Rightarrow> error" where
  "copy_failed src dst w =
     (if src \<in> dirs w
      then eisdir (''copyfile '' @ quoted src @ '' -> '' @ quoted dst)
      else Error (''ENOENT: no such file or directory, copyfile '' @
                  quoted src @ '' -> '' @ quoted dst))"

definition read_failed :: "string \<Rightarrow> world \<Rightarrow> error" where
  "read_failed p w = (if p \<in> dirs w then eisdir ''read'' else enoent ''open'' p)"

definition fs_stat :: "host \<Rightarrow> string \<Rightarrow> nat io" where
  "fs_stat h p =
     sys h (Stat p) (\<lambda>w. case files w p of
        None \<Rightarrow> (if p \<in> dirs w then (Inr (dirSize h p), w)
                 else (Inl (enoent ''stat'' p), w))
      | Some c \<Rightarrow> (Inr (byteLength h c), w))"

definition fs_mkdir :: "host \<Rightarrow> string \<Rightarrow> unit io" where
  "fs_mkdir h p = sys h (Mkdir p) (\<lambda>w. (Inr (), w\<lparr>dirs := insert p (dirs w)\<rparr>))"

definition fs_copyFile :: "host \<Rightarrow> string \<Rightarrow> string \<Rightarrow> unit io" where
  "fs_copyFile h src dst =
     sys h (CopyFile src dst) (\<lambda>w. case files w src of
        None \<Rightarrow> (Inl (copy_failed src dst w), w)
      | Some c \<Rightarrow> (Inr (), w\<lparr>files := (files w)(dst \<mapsto> c)\<rparr>))"

definition fs_readFile :: "host \<Rightarrow> string \<Rightarrow> string io" where
  "fs_readFile h p =
     sys h (ReadFile p) (\<lambda>w. case files w p of
        None \<Rightarrow> (Inl (read_failed p w), w)
      | Some c \<Rightarrow> (Inr c, w))"

definition fs_writeFile :: "host \<Rightarrow> string \<Rightarrow> string \<Rightarrow> unit io" where
  "fs_writeFile h p c =
     sys h (WriteFile p) (\<lambda>w. (Inr (), w\<lparr>files := (files w)(p \<mapsto> c)\<rparr>))"

definition within :: "string \<Rightarrow> string \<Rightarrow> bool" where
  "within d q \<longleftrightarrow> q = d \<or> prefix (d @ ''/'') q"

definition fs_rm :: "host \<Rightarrow> string \<Rightarrow> unit io" where
  "fs_rm h p =
     sys h (Rm p) (\<lambda>w. (Inr (),
        w\<lparr>files := (\<lambda>q. if within p q then None else files w q),
          dirs := {d \<in> dirs w. \<not> within p d}\<rparr>))"

text \<open>
  Modelled from the spec: \<^verbatim>\<open>readFile\<close> and \<^verbatim>\<open>writeFile\<close> of \<^verbatim>\<open>./filesystem.js\<close>, which
  is not among the sources.  The specification gives them as whole-file text input and
  output, \<^verbatim>\<open>readText(path) -> string\<close> and \<^verbatim>\<open>writeText(path, string) -> void\<close>, failing
  with an I/O error; the failures are those the host injects, a missing file and a
  directory in the place of a file.
\<close>

definition readFile :: "host \<Rightarrow> string \<Rightarrow> string io" where
  "readFile h p =
     sys h (ReadText p) (\<lambda>w. case files w p of
        None \<Rightarrow> (Inl (read_failed p w), w)
      | Some c \<Rightarrow> (Inr c, w))"

definition writeFile :: "host \<Rightarrow> string \<Rightarrow> string \<Rightarrow> unit io" where
  "writeFile h p c =
     sys h (WriteText p) (\<lambda>w. (Inr (), w\<lparr>files := (files w)(p \<mapsto> c)\<rparr>))"

text \<open>
  \<^verbatim>\<open>exec(cmd)\<close>: the command line is recorded and handed to the host's shell, which
  gives the outcome and the world.  The shell cannot alter the record.
\<close>

definition exec_sh :: "host \<Rightarrow> string \<Rightarrow> string io" where
  "exec_sh h cmd w =
     (case exec h cmd w of (r, w') \<Rightarrow> (r, w'\<lparr>trace := trace w @ [Exec cmd]\<rparr>))"

subsection \<open>\<^verbatim>\<open>path.basename\<close>, \<^verbatim>\<open>path.dirname\<close> and the rendering of numbers\<close>

text \<open>
  Node's POSIX \<^verbatim>\<open>path.basename(p)\<close>: trailing slashes are dropped, the result is what
  follows the last remaining slash.  \<^verbatim>\<open>path.dirname(p)\<close>: the part before the last
  slash that is followed by a name, \<open>/\<close> or \<open>.\<close> when there is none, \<open>//\<close> for a name
  directly under a doubled root.
\<close>

definition basename :: "string \<Rightarrow> string" where
  "basename p =
     rev (takeWhile (\<lambda>c. c \<noteq> CHR ''/'') (dropWhile (\<lambda>c. c = CHR ''/'') (rev p)))"

definition dirname :: "string \<Rightarrow> string" where
  "dirname p =
     (if p = [] then ''.''
      else
        let hasRoot = (hd p = CHR ''/'');
            t = rev (dropWhile (\<lambda>c. c = CHR ''/'') (rev (tl p)))
        in if CHR ''/'' \<notin> set t then (if hasRoot then ''/'' else ''.'')
           else
             let stop = length (dropWhile (\<lambda>c. c \<noteq> CHR ''/'') (rev t))
             in if hasRoot \<and> stop = 1 then ''//'' else take stop p)"

definition digit :: "nat \<Rightarrow> char" where
  "digit d = ''0123456789'' ! d"

function show_nat :: "nat \<Rightarrow> string" where
  "show_nat n = (if n < 10 then [digit n] else show_nat (n div 10) @ [digit (n mod 10)])"
  by pat_completeness auto
termination
  by (relation "measure id") auto

declare show_nat.simps [simp del]


section \<open>The replace engines and the strategy selector\<close>

text \<open>
  The three functions of \<^verbatim>\<open>src/tools/edit.ts\<close> that touch files.  Their parameter
  \<^verbatim>\<open>filePath\<close> is written \<open>file_path\<close>, since \<open>filePath\<close> is the field of a parsed
  block.  Each engine first records that it was entered; this is the only addition to
  the source.  Everything the program throws or catches is an \<^verbatim>\<open>Error\<close> object, so
  \<^verbatim>\<open>error instanceof Error ? error.message : String(error)\<close> is \<open>message error\<close>.
\<close>

subsection \<open>The in-memory engine\<close>

text \<open>
  \<^verbatim>\<open>simpleInMemoryReplace\<close>: read the file, find the first occurrence, build the new
  content from the part before it, the replacement and the part after it, and write
  only when the content changed.
\<close>

definition simpleInMemoryReplace :: "host \<Rightarrow> string \<Rightarrow> SearchReplace \<Rightarrow> unit io" where
  "simpleInMemoryReplace h file_path block =
     await (emit (Enter ''simpleInMemoryReplace'')) (\<lambda>_.
     await (readFile h file_path) (\<lambda>content.
       let searchIndex = indexOf content (search block)
       in if searchIndex = - 1
          then rejected (Error (''Search content not found in '' @ file_path))
          else
            let newContent =
                  substring content 0 searchIndex @
                  replace block @
                  substring_from content (searchIndex + int (length (search block)))
            in if newContent \<noteq> content then writeFile h file_path newContent
               else resolved ()))"

subsection \<open>The diff/patch engine\<close>

text \<open>The five command lines, each a template literal of the source.\<close>

definition cmd_init :: "string \<Rightarrow> string" where
  \<open>cmd_init tempDir =
     ''cd '' @ tempDir @
     '' && git init && git config user.email "temp@example.com" && git config user.name "Temp User"''\<close>

definition cmd_commit :: "string \<Rightarrow> string \<Rightarrow> string" where
  \<open>cmd_commit tempDir base =
     ''cd '' @ tempDir @ '' && git add '' @ base @ '' && git commit -m "Original file"''\<close>

definition cmd_diff :: "string \<Rightarrow> string" where
  "cmd_diff tempDir = ''cd '' @ tempDir @ '' && git diff''"

definition cmd_apply :: "string \<Rightarrow> string \<Rightarrow> string" where
  "cmd_apply dir patchFile = ''cd '' @ dir @ '' && git apply '' @ patchFile"

definition cmd_apply3way :: "string \<Rightarrow> string \<Rightarrow> string" where
  "cmd_apply3way dir patchFile = ''cd '' @ dir @ '' && git apply --3way '' @ patchFile"

definition tempDir_of :: "host \<Rightarrow> string" where
  "tempDir_of h = path_join h (os_tmpdir h) (''git-edit-'' @ show_nat (date_now h))"

text \<open>The \<^verbatim>\<open>try\<close> block of \<^verbatim>\<open>gitBasedReplace\<close>.\<close>

definition gitBasedReplace_try :: "host \<Rightarrow> string \<Rightarrow> SearchReplace \<Rightarrow> unit io" where
  "gitBasedReplace_try h file_path block =
     (let tempDir = tempDir_of h;
          tempFilePath = path_join h tempDir (basename file_path)
      in
      await (fs_mkdir h tempDir) (\<lambda>_.
      await (fs_copyFile h file_path tempFilePath) (\<lambda>_.
      await (exec_sh h (cmd_init tempDir)) (\<lambda>_.
      await (exec_sh h (cmd_commit tempDir (basename file_path))) (\<lambda>_.
      await (fs_readFile h tempFilePath) (\<lambda>content.
        let searchIndex = indexOf content (search block)
        in if searchIndex = - 1
           then rejected (Error (''Search content not found in '' @ file_path))
           else
             let newContent =
                   substring content 0 searchIndex @
                   replace block @
                   substring_from content (searchIndex + int (length (search block)))
             in
             await (fs_writeFile h tempFilePath newContent) (\<lambda>_.
             await (exec_sh h (cmd_diff tempDir)) (\<lambda>patchContent.
               let patchFile = path_join h tempDir ''changes.patch''
               in
               await (fs_writeFile h patchFile patchContent) (\<lambda>_.
               try_catch
                 (await (exec_sh h (cmd_apply (dirname file_path) patchFile)) (\<lambda>_. resolved ()))
                 (\<lambda>applyError.
                    try_catch
                      (await (exec_sh h (cmd_apply3way (dirname file_path) patchFile))
                         (\<lambda>_. resolved ()))
                      (\<lambda>retryError.
                         rejected (Error (''Failed to apply changes: '' @
                                          error_toString retryError)))))))))))))"

text \<open>The \<^verbatim>\<open>finally\<close> block: remove the workspace; a failure is logged and dropped.\<close>

definition gitBasedReplace_finally :: "host \<Rightarrow> unit io" where
  "gitBasedReplace_finally h =
     try_catch (fs_rm h (tempDir_of h))
       (\<lambda>error. console_error (''Failed to clean up temp directory: '' @ error_toString error))"

definition gitBasedReplace :: "host \<Rightarrow> string \<Rightarrow> SearchReplace \<Rightarrow> unit io" where
  "gitBasedReplace h file_path block =
     await (emit (Enter ''gitBasedReplace'')) (\<lambda>_.
       try_finally (gitBasedReplace_try h file_path block) (gitBasedReplace_finally h))"

subsection \<open>The strategy selector\<close>

text \<open>
  The outer \<^verbatim>\<open>try\<close>/\<^verbatim>\<open>catch\<close> of \<^verbatim>\<open>performSearchReplace\<close>: whatever is thrown inside is
  replaced by a new error whose message has a fixed prefix.
\<close>

definition rethrow :: "'a io \<Rightarrow> 'a io" where
  "rethrow m =
     try_catch m
       (\<lambda>error. rejected (Error (''Failed to perform search/replace: '' @ message error)))"

definition performSearchReplace :: "host \<Rightarrow> string \<Rightarrow> SearchReplace \<Rightarrow> unit io" where
  "performSearchReplace h file_path block =
     rethrow
       (await (fs_stat h file_path) (\<lambda>size.
          if size < 1000000 then simpleInMemoryReplace h file_path block
          else
            try_catch (gitBasedReplace h file_path block)
              (\<lambda>gitError.
                 await (console_warn
                          (''Git-based replace failed, falling back to simple replace: '' @
                           error_toString gitError)) (\<lambda>_.
                 simpleInMemoryReplace h file_path block))))"

text \<open>
  The events the \<^verbatim>\<open>try\<close> block of \<^verbatim>\<open>gitBasedReplace\<close> can add to the record, and what
  it means for a property of records to survive a computation.
\<close>

definition try_events :: "host \<Rightarrow> string \<Rightarrow> event set" where
  "try_events h file_path =
     (let tempDir = tempDir_of h;
          tempFilePath = path_join h tempDir (basename file_path);
          patchFile = path_join h tempDir ''changes.patch''
      in {Sys (Mkdir tempDir), Sys (CopyFile file_path tempFilePath),
          Exec (cmd_init tempDir), Exec (cmd_commit tempDir (basename file_path)),
          Sys (ReadFile tempFilePath), Sys (WriteFile tempFilePath),
          Exec (cmd_diff tempDir), Sys (WriteFile patchFile),
          Exec (cmd_apply (dirname file_path) patchFile),
          Exec (cmd_apply3way (dirname file_path) patchFile)})"

definition trace_stable :: "(event list \<Rightarrow> bool) \<Rightarrow> 'a io \<Rightarrow> bool" where
  "trace_stable J m \<longleftrightarrow> (\<forall>w r w'. m w = (r, w') \<longrightarrow> J (trace w) \<longrightarrow> J (trace w'))"


section \<open>Notions used to state the results\<close>

subsection \<open>Occurrences of the search text\<close>

text \<open>
  \<open>first_occurrence content s pre post\<close>: the content is \<open>pre\<close>, then \<open>s\<close>, then \<open>post\<close>,
  and \<open>s\<close> starts at no earlier position.  \<open>occurrences content s\<close> lists the positions
  at which \<open>s\<close> starts.
\<close>

definition first_occurrence :: "'a list \<Rightarrow> 'a list \<Rightarrow> 'a list \<Rightarrow> 'a list \<Rightarrow> bool" where
  "first_occurrence content s pre post \<longleftrightarrow>
     content = pre @ s @ post \<and> (\<forall>k<length pre. \<not> prefix s (drop k content))"

definition occurrences :: "'a list \<Rightarrow> 'a list \<Rightarrow> nat list" where
  "occurrences content s = filter (\<lambda>k. prefix s (drop k content)) [0..<Suc (length content)]"

subsection \<open>Outcomes and records of a run\<close>

text \<open>
  \<open>triple P m Q E\<close>: started in a world satisfying \<open>P\<close>, the computation \<open>m\<close> either
  resolves with a value and a world satisfying \<open>Q\<close> or rejects with an error and a
  world satisfying \<open>E\<close>.
\<close>

definition triple ::
  "(world \<Rightarrow> bool) \<Rightarrow> 'a io \<Rightarrow> ('a \<Rightarrow> world \<Rightarrow> bool) \<Rightarrow> (error \<Rightarrow> world \<Rightarrow> bool) \<Rightarrow> bool" where
  "triple P m Q E \<longleftrightarrow>
     (\<forall>w. P w \<longrightarrow> (case m w of (Inl e, w') \<Rightarrow> E e w' | (Inr x, w') \<Rightarrow> Q x w'))"

text \<open>The engines entered, and the paths written by a write call, in a record.\<close>

fun entered :: "event list \<Rightarrow> string list" where
  "entered [] = []"
| "entered (Enter n # es) = n # entered es"
| "entered (ev # es) = entered es"

fun written :: "event list \<Rightarrow> string list" where
  "written [] = []"
| "written (Sys (WriteText p) # es) = p # written es"
| "written (Sys (WriteFile p) # es) = p # written es"
| "written (ev # es) = written es"

fun executed :: "event list \<Rightarrow> string list" where
  "executed [] = []"
| "executed (Exec c # es) = c # executed es"
| "executed (ev # es) = executed es"

definition no_faults :: "host \<Rightarrow> bool" where
  "no_faults h \<longleftrightarrow> (\<forall>op w. fault h op w = None)"

subsection \<open>What is assumed of the shell\<close>

text \<open>
  The shell splits a command line into words at blanks.  \<open>sh_fields\<close> is that
  splitting for text without quoting; a word it yields never contains a blank.
\<close>

fun fields_acc :: "string \<Rightarrow> string \<Rightarrow> string list" where
  "fields_acc acc [] = (if acc = [] then [] else [rev acc])"
| "fields_acc acc (c # cs) =
     (if c = CHR '' '' \<or> c = CHR 0x09
      then (if acc = [] then fields_acc [] cs else rev acc # fields_acc [] cs)
      else fields_acc (c # acc) cs)"

definition sh_fields :: "string \<Rightarrow> string list" where
  "sh_fields s = fields_acc [] s"

text \<open>
  \<open>leaves_alone h cmd q\<close>: run in any world, whether it succeeds or fails, the
  command line \<open>cmd\<close> leaves the file \<open>q\<close>, if it exists, with the content it has.
\<close>

definition keeps_file :: "string \<Rightarrow> world \<Rightarrow> world \<Rightarrow> bool" where
  "keeps_file q w w' \<longleftrightarrow> (\<forall>c. files w q = Some c \<longrightarrow> files w' q = Some c)"

definition leaves_alone :: "host \<Rightarrow> string \<Rightarrow> string \<Rightarrow> bool" where
  "leaves_alone h cmd q \<longleftrightarrow> (\<forall>w. keeps_file q w (snd (exec h cmd w)))"

text \<open>
  \<open>staging_harmless h file_path\<close> is what the result on a missing search text assumes
  of the host when the file goes to the diff/patch engine: the two command lines
  that stage the copy, as the engine builds them on this host for this file, leave
  the target and the copy alone, and the target is neither the workspace directory
  nor inside it.  Nothing is assumed of the commands that diff and apply, and nothing
  of what the two command lines do to other files.
\<close>

definition staging_harmless :: "host \<Rightarrow> string \<Rightarrow> bool" where
  "staging_harmless h file_path \<longleftrightarrow>
     (let tempDir = tempDir_of h;
          tempFilePath = path_join h tempDir (basename file_path);
          init = cmd_init tempDir;
          commit = cmd_commit tempDir (basename file_path)
      in leaves_alone h init file_path \<and> leaves_alone h init tempFilePath \<and>
         leaves_alone h commit file_path \<and> leaves_alone h commit tempFilePath \<and>
         \<not> within tempDir file_path)"

subsection \<open>A host for the examples\<close>

text \<open>
  A small shell and versioning tool after \<^verbatim>\<open>git\<close>.  Committing records the name and
  the content of a file; a patch is the file name (without a colon), a colon and the
  new content, and the empty text when nothing changed.  The name in a patch is
  relative to the root of the work tree it was made in.

  Applying fails on a missing or empty patch.  Run in a directory outside every work
  tree, or in the root of one, it patches the file of that name in the directory and
  fails when there is none.  Run in a proper sub-directory of a work tree, it takes
  the name as relative to the root of that work tree, patches a file inside the
  sub-directory, and skips a patch for a file outside it without any error: the
  command succeeds and nothing is changed.  This is what \<^verbatim>\<open>git apply\<close> does with the
  output of \<^verbatim>\<open>git diff\<close>.  Any other command line fails.
\<close>

text \<open>The file a relative name denotes after \<^verbatim>\<open>cd dir\<close>.\<close>

definition resolve :: "string \<Rightarrow> string \<Rightarrow> string" where
  "resolve dir name = (if dir = ''/'' then dir @ name else dir @ ''/'' @ name)"

text \<open>
  The directories a directory lies below, outermost first, and the root of the work
  tree a directory is a proper sub-directory of: the nearest directory above it with a
  repository, unless the directory is itself the root of a work tree.
\<close>

fun parents_acc :: "string \<Rightarrow> string \<Rightarrow> string list" where
  "parents_acc acc [] = []"
| "parents_acc acc (c # cs) =
     (if c = CHR ''/'' \<and> cs \<noteq> []
      then (if acc = [] then ''/'' else rev acc) # parents_acc (c # acc) cs
      else parents_acc (c # acc) cs)"

definition parents :: "string \<Rightarrow> string list" where
  "parents dir = parents_acc [] dir"

definition enclosing_work_tree :: "world \<Rightarrow> string \<Rightarrow> string option" where
  "enclosing_work_tree w dir =
     (if repo w dir \<noteq> None then None
      else case filter (\<lambda>a. repo w a \<noteq> None) (rev (parents dir)) of
             [] \<Rightarrow> None
           | root # _ \<Rightarrow> Some root)"

definition command_failed :: "string \<Rightarrow> error" where
  "command_failed cmd = Error (''Command failed: '' @ cmd)"

definition patch_file :: "string \<Rightarrow> string \<Rightarrow> string \<Rightarrow> world \<Rightarrow> (error + string) \<times> world" where
  "patch_file cmd target new w =
     (case files w target of
        None \<Rightarrow> (Inl (command_failed cmd), w)
      | Some old \<Rightarrow> (Inr [], w\<lparr>files := (files w)(target \<mapsto> new)\<rparr>))"

definition demo_apply :: "string \<Rightarrow> string \<Rightarrow> string \<Rightarrow> world \<Rightarrow> (error + string) \<times> world" where
  "demo_apply cmd dir patchFile w =
     (case files w patchFile of
        None \<Rightarrow> (Inl (command_failed cmd), w)
      | Some s \<Rightarrow>
          if CHR '':'' \<notin> set s then (Inl (command_failed cmd), w)
          else
            let name = takeWhile (\<lambda>c. c \<noteq> CHR '':'') s;
                new = tl (dropWhile (\<lambda>c. c \<noteq> CHR '':'') s)
            in (case enclosing_work_tree w dir of
                  None \<Rightarrow> patch_file cmd (resolve dir name) new w
                | Some root \<Rightarrow>
                    if prefix (drop (length (resolve root [])) dir @ ''/'') name
                    then patch_file cmd (resolve root name) new w
                    else (Inr [], w)))"

definition demo_exec :: "string \<Rightarrow> world \<Rightarrow> (error + string) \<times> world" where
  "demo_exec cmd w =
     (let ws = sh_fields cmd
      in if length ws = 16 \<and> ws = sh_fields (cmd_init (ws ! 1))
         then (Inr [], w\<lparr>repo := (repo w)(ws ! 1 := None)\<rparr>)
         else if length ws = 12 \<and> ws = sh_fields (cmd_commit (ws ! 1) (ws ! 5))
         then (case files w (resolve (ws ! 1) (ws ! 5)) of
                 None \<Rightarrow> (Inl (command_failed cmd), w)
               | Some c \<Rightarrow> (Inr [], w\<lparr>repo := (repo w)(ws ! 1 \<mapsto> (ws ! 5, c))\<rparr>))
         else if length ws = 5 \<and> ws = sh_fields (cmd_diff (ws ! 1))
         then (case repo w (ws ! 1) of
                 None \<Rightarrow> (Inl (command_failed cmd), w)
               | Some (name, c0) \<Rightarrow>
                   (case files w (resolve (ws ! 1) name) of
                      None \<Rightarrow> (Inl (command_failed cmd), w)
                    | Some c1 \<Rightarrow>
                        if CHR '':'' \<in> set name then (Inl (command_failed cmd), w)
                        else (Inr (if c0 = c1 then [] else name @ '':'' @ c1), w)))
         else if length ws = 6 \<and> ws = sh_fields (cmd_apply (ws ! 1) (ws ! 5))
         then demo_apply cmd (ws ! 1) (ws ! 5) w
         else if length ws = 7 \<and> ws = sh_fields (cmd_apply3way (ws ! 1) (ws ! 6))
         then demo_apply cmd (ws ! 1) (ws ! 6) w
         else (Inl (command_failed cmd), w))"

definition demo_host :: host where
  "demo_host =
     \<lparr>os_tmpdir = ''/tmp'', date_now = 0,
      path_join = (\<lambda>a b. a @ ''/'' @ b),
      byteLength = length,
      dirSize = (\<lambda>p. 4096),
      fault = (\<lambda>op w. None),
      exec = demo_exec\<rparr>"

text \<open>
  Two worlds: one with a single file and no work tree, and one with a work tree
  rooted at \<^verbatim>\<open>/home/u/proj\<close>, in which \<^verbatim>\<open>README\<close> is committed, and a file
  \<^verbatim>\<open>a.txt\<close> in its sub-directory \<^verbatim>\<open>src\<close>.  \<open>large_text\<close> is a text of 1,000,001
  characters, a million times \<^verbatim>\<open>a\<close> and one \<^verbatim>\<open>b\<close>.
\<close>

definition demo_world :: "string \<Rightarrow> string \<Rightarrow> world" where
  "demo_world p c = \<lparr>files = [p \<mapsto> c], dirs = {}, repo = Map.empty, trace = []\<rparr>"

definition demo_work_tree :: "string \<Rightarrow> world" where
  "demo_work_tree c =
     \<lparr>files = [''/home/u/proj/README'' \<mapsto> ''readme'', ''/home/u/proj/src/a.txt'' \<mapsto> c],
      dirs = {''/home/u/proj'', ''/home/u/proj/src''},
      repo = [''/home/u/proj'' \<mapsto> (''README'', ''readme'')],
      trace = []\<rparr>"


text \<open>
  Variants of the example host: one on which every file counts as large, and one on
  which removing the workspace fails.
\<close>

definition demo_host_large :: host where
  "demo_host_large = demo_host\<lparr>byteLength := (\<lambda>c. 1000000 + length c)\<rparr>"

definition demo_host_busy :: host where
  "demo_host_busy =
     demo_host\<lparr>fault := (\<lambda>op w. if op = Rm ''/tmp/git-edit-0''
                                  then Some (Error ''EBUSY: resource busy or locked'')
                                  else None)\<rparr>"


section \<open>Properties of the string operations\<close>


lemma arrayIndexOf_from_range:
  "arrayIndexOf_from xs x i = - 1 \<or> int i \<le> arrayIndexOf_from xs x i"
  by (induction xs arbitrary: i) (auto, force)

lemma arrayIndexOf_from_absent:
  "arrayIndexOf_from xs x i = - 1 \<longleftrightarrow> x \<notin> set xs"
proof (induction xs arbitrary: i)
  case Nil
  show ?case by simp
next
  case (Cons y ys)
  show ?case using Cons.IH [of "Suc i"] by auto
qed

lemma arrayIndexOf_absent: "arrayIndexOf xs x = - 1 \<longleftrightarrow> x \<notin> set xs"
  by (simp add: arrayIndexOf_def arrayIndexOf_from_absent)






section \<open>The block parser: results\<close>

lemma parseEditBlock_marker_absent:
  assumes "SEARCH_MARKER \<notin> set (split_nl blockContent)
           \<or> DIVIDER_MARKER \<notin> set (split_nl blockContent)
           \<or> REPLACE_MARKER \<notin> set (split_nl blockContent)"
  shows "parseEditBlock blockContent = Inl format_error"
  using assms by (auto simp add: parseEditBlock_def Let_def arrayIndexOf_absent)



text \<open>
  Claim C5.  A block text whose three marker lines are all present but stand in the
  reverse order (closing marker, divider, opening marker) is not rejected:
  \<open>parseEditBlock\<close> only tests that each marker occurs somewhere, and returns a block
  with empty search and replace texts.
\<close>

theorem parseEditBlock_misordered_accepted:
  "parseEditBlock ''f.txt\<newline>>>>>>>> REPLACE\<newline>=======\<newline><<<<<<< SEARCH'' =
     Inr \<lparr>filePath = ''f.txt'', searchReplace = \<lparr>search = '''', replace = ''''\<rparr>\<rparr>"
  by (simp add: parseEditBlock_def Let_def arrayIndexOf_def slice_def trim_def
      isWhiteSpace_def SEARCH_MARKER_def DIVIDER_MARKER_def REPLACE_MARKER_def)

section \<open>Properties of the first-occurrence search\<close>

lemma indexOf_from_spec:
  "indexOf_from c s i = j \<Longrightarrow> j \<noteq> - 1 \<Longrightarrow>
     \<exists>n. j = int (i + n) \<and> n \<le> length c \<and> prefix s (drop n c) \<and>
         (\<forall>k<n. \<not> prefix s (drop k c))"
proof (induction c arbitrary: i)
  case Nil
  then show ?case by (auto split: if_splits)
next
  case (Cons a c)
  show ?case
  proof (cases "prefix s (a # c)")
    case True
    with Cons.prems show ?thesis by (intro exI [of _ 0]) auto
  next
    case False
    with Cons.prems have "indexOf_from c s (Suc i) = j" by simp
    from Cons.IH [OF this Cons.prems(2)] obtain n where
      n: "j = int (Suc i + n)" "n \<le> length c" "prefix s (drop n c)"
         "\<forall>k<n. \<not> prefix s (drop k c)" by blast
    have "\<forall>k<Suc n. \<not> prefix s (drop k (a # c))"
    proof (intro allI impI)
      fix k assume "k < Suc n"
      then show "\<not> prefix s (drop k (a # c))"
        using False n(4) by (cases k) auto
    qed
    with n show ?thesis by (intro exI [of _ "Suc n"]) auto
  qed
qed

lemma indexOf_from_absent:
  "indexOf_from c s i = - 1 \<longleftrightarrow> \<not> sublist s c"
proof (induction c arbitrary: i)
  case Nil
  show ?case by auto
next
  case (Cons a c)
  show ?case using Cons.IH [of "Suc i"] by (auto simp add: sublist_Cons_right)
qed

lemma indexOf_absent: "indexOf c s = - 1 \<longleftrightarrow> \<not> sublist s c"
  by (simp add: indexOf_def indexOf_from_absent)

lemma substring_take: "n \<le> length c \<Longrightarrow> substring c 0 (int n) = take n c"
  by (simp add: substring_def Let_def min_def max_def)

lemma substring_from_drop: "n \<le> length c \<Longrightarrow> substring_from c (int n) = drop n c"
  by (simp add: substring_from_def substring_def Let_def min_def max_def)

lemma indexOf_first_occurrence:
  assumes "sublist s c"
  shows "\<exists>pre post. first_occurrence c s pre post \<and> indexOf c s = int (length pre) \<and>
           substring c 0 (indexOf c s) = pre \<and>
           substring_from c (indexOf c s + int (length s)) = post"
proof -
  from assms have "indexOf_from c s 0 \<noteq> - 1" by (simp add: indexOf_from_absent)
  from indexOf_from_spec [OF refl this] obtain n where
    n: "indexOf c s = int n" "n \<le> length c" "prefix s (drop n c)"
       "\<forall>k<n. \<not> prefix s (drop k c)" by (auto simp add: indexOf_def)
  from n(3) obtain post where post: "drop n c = s @ post" by (auto simp add: prefix_def)
  have c: "c = take n c @ s @ post" using post by (metis append_take_drop_id)
  have len: "length (take n c) = n" using n(2) by simp
  have "n + length s \<le> length c"
    using arg_cong [OF c, of length] len by simp
  have dr: "drop (n + length s) c = post"
    using post by (metis add.commute append_eq_conv_conj drop_drop)
  have fo: "first_occurrence c s (take n c) post"
    unfolding first_occurrence_def using c n(4) len by auto
  have "substring_from c (int n + int (length s)) = post"
    using substring_from_drop [of "n + length s" c] \<open>n + length s \<le> length c\<close> dr by simp
  with fo n(1) len substring_take [OF n(2)] show ?thesis by auto
qed

lemma first_occurrence_unique:
  assumes "first_occurrence c s pre post" "first_occurrence c s pre' post'"
  shows "pre = pre' \<and> post = post'"
proof -
  have eq: "pre @ s @ post = pre' @ s @ post'" and c: "c = pre @ s @ post" "c = pre' @ s @ post'"
    using assms by (auto simp add: first_occurrence_def)
  have p1: "prefix s (drop (length pre) c)" using c(1) by simp
  have p2: "prefix s (drop (length pre') c)" using c(2) by simp
  have "\<not> length pre' < length pre" using assms(1) p2 by (auto simp add: first_occurrence_def)
  moreover have "\<not> length pre < length pre'" using assms(2) p1 by (auto simp add: first_occurrence_def)
  ultimately have "length pre = length pre'" by simp
  with eq show ?thesis by simp
qed

lemma occurrences_sublist: "occurrences c s \<noteq> [] \<longleftrightarrow> sublist s c"
proof
  assume "occurrences c s \<noteq> []"
  then obtain k where "prefix s (drop k c)"
    unfolding occurrences_def filter_empty_conv by blast
  then obtain t where "drop k c = s @ t" by (auto simp add: prefix_def)
  then have "c = take k c @ s @ t" by (metis append_take_drop_id)
  then show "sublist s c" unfolding sublist_def by blast
next
  assume "sublist s c"
  then obtain ps ss where c: "c = ps @ s @ ss" by (auto simp add: sublist_def)
  then have "prefix s (drop (length ps) c)" by simp
  moreover have "length ps < Suc (length c)" using c by simp
  ultimately show "occurrences c s \<noteq> []"
    unfolding occurrences_def filter_empty_conv by (metis atLeastLessThan_iff set_upt zero_le)
qed

section \<open>Rules for outcomes\<close>

lemma tripleI:
  assumes "\<And>w r w'. P w \<Longrightarrow> m w = (r, w') \<Longrightarrow>
      (case r of Inl e \<Rightarrow> E e w' | Inr x \<Rightarrow> Q x w')"
  shows "triple P m Q E"
  unfolding triple_def
proof (intro allI impI)
  fix w assume "P w"
  obtain r w' where run: "m w = (r, w')" by (cases "m w")
  from assms [OF \<open>P w\<close> run] show "case m w of (Inl e, w') \<Rightarrow> E e w' | (Inr x, w') \<Rightarrow> Q x w'"
    unfolding run by (cases r) simp_all
qed

lemma tripleD:
  assumes "triple P m Q E" "P w" "m w = (r, w')"
  shows "case r of Inl e \<Rightarrow> E e w' | Inr x \<Rightarrow> Q x w'"
proof -
  from assms(1) have "P w \<longrightarrow> (case m w of (Inl e, w') \<Rightarrow> E e w' | (Inr x, w') \<Rightarrow> Q x w')"
    unfolding triple_def by (rule spec)
  with assms(2) have "case m w of (Inl e, w') \<Rightarrow> E e w' | (Inr x, w') \<Rightarrow> Q x w'"
    by (rule rev_mp)
  then show ?thesis unfolding assms(3) by (cases r) simp_all
qed

lemma tripleD_Inr: "triple P m Q E \<Longrightarrow> P w \<Longrightarrow> m w = (Inr x, w') \<Longrightarrow> Q x w'"
  by (drule (2) tripleD) simp

lemma tripleD_Inl: "triple P m Q E \<Longrightarrow> P w \<Longrightarrow> m w = (Inl e, w') \<Longrightarrow> E e w'"
  by (drule (2) tripleD) simp

lemma triple_weaken:
  assumes "triple P' m Q' E'" "\<And>w. P w \<Longrightarrow> P' w" "\<And>x w. Q' x w \<Longrightarrow> Q x w"
    "\<And>e w. E' e w \<Longrightarrow> E e w"
  shows "triple P m Q E"
proof (rule tripleI)
  fix w r w' assume "P w" and run: "m w = (r, w')"
  from tripleD [OF assms(1) assms(2) [OF \<open>P w\<close>] run]
  show "case r of Inl e \<Rightarrow> E e w' | Inr x \<Rightarrow> Q x w'"
    using assms(3,4) by (cases r) simp_all
qed

lemma triple_resolved: "(\<And>w. P w \<Longrightarrow> Q x w) \<Longrightarrow> triple P (resolved x) Q E"
  unfolding triple_def resolved_def by simp

lemma triple_rejected: "(\<And>w. P w \<Longrightarrow> E e w) \<Longrightarrow> triple P (rejected e) Q E"
  unfolding triple_def rejected_def by simp

lemma triple_await:
  assumes "triple P m R E" "\<And>x. triple (R x) (f x) Q E"
  shows "triple P (await m f) Q E"
proof (rule tripleI)
  fix w r w' assume "P w" and run: "await m f w = (r, w')"
  obtain r1 w1 where m: "m w = (r1, w1)" by (cases "m w")
  show "case r of Inl e \<Rightarrow> E e w' | Inr x \<Rightarrow> Q x w'"
  proof (cases r1)
    case (Inl e)
    with run m have "r = Inl e" "w' = w1" by (simp_all add: await_def)
    with tripleD_Inl [OF assms(1) \<open>P w\<close>] m Inl show ?thesis by simp
  next
    case (Inr x)
    with run m have f: "f x w1 = (r, w')" by (simp add: await_def)
    from tripleD_Inr [OF assms(1) \<open>P w\<close>] m Inr have "R x w1" by simp
    from tripleD [OF assms(2) this f] show ?thesis .
  qed
qed

lemma triple_try_catch:
  assumes "triple P m Q R" "\<And>e. triple (R e) (handler e) Q E"
  shows "triple P (try_catch m handler) Q E"
proof (rule tripleI)
  fix w r w' assume "P w" and run: "try_catch m handler w = (r, w')"
  obtain r1 w1 where m: "m w = (r1, w1)" by (cases "m w")
  show "case r of Inl e \<Rightarrow> E e w' | Inr x \<Rightarrow> Q x w'"
  proof (cases r1)
    case (Inr x)
    with run m have "r = Inr x" "w' = w1" by (simp_all add: try_catch_def)
    with tripleD_Inr [OF assms(1) \<open>P w\<close>] m Inr show ?thesis by simp
  next
    case (Inl e)
    with run m have f: "handler e w1 = (r, w')" by (simp add: try_catch_def)
    from tripleD_Inl [OF assms(1) \<open>P w\<close>] m Inl have "R e w1" by simp
    from tripleD [OF assms(2) this f] show ?thesis .
  qed
qed

lemma triple_try_finally:
  assumes "triple P m R1 R2" "\<And>x. triple (R1 x) cleanup (\<lambda>u. Q x) E"
    "\<And>e. triple (R2 e) cleanup (\<lambda>u. E e) E"
  shows "triple P (try_finally m cleanup) Q E"
proof (rule tripleI)
  fix w r w' assume "P w" and run: "try_finally m cleanup w = (r, w')"
  obtain r1 w1 where m: "m w = (r1, w1)" by (cases "m w")
  obtain r2 w2 where c: "cleanup w1 = (r2, w2)" by (cases "cleanup w1")
  have w': "w' = w2" using run m c by (cases r2) (simp_all add: try_finally_def)
  show "case r of Inl e \<Rightarrow> E e w' | Inr x \<Rightarrow> Q x w'"
  proof (cases r1)
    case (Inr x)
    from tripleD_Inr [OF assms(1) \<open>P w\<close>] m Inr have "R1 x w1" by simp
    from tripleD [OF assms(2) this c] run m c Inr w' show ?thesis
      by (cases r2) (auto simp add: try_finally_def)
  next
    case (Inl e)
    from tripleD_Inl [OF assms(1) \<open>P w\<close>] m Inl have "R2 e w1" by simp
    from tripleD [OF assms(3) this c] run m c Inl w' show ?thesis
      by (cases r2) (auto simp add: try_finally_def)
  qed
qed

lemma triple_emit:
  "(\<And>w. P w \<Longrightarrow> Q () (w\<lparr>trace := trace w @ [ev]\<rparr>)) \<Longrightarrow> triple P (emit ev) Q E"
  unfolding triple_def emit_def by simp

lemma triple_sys:
  assumes "\<And>w e. P w \<Longrightarrow> fault h op w = Some e \<Longrightarrow> E e (w\<lparr>trace := trace w @ [Sys op]\<rparr>)"
    and "\<And>w. P w \<Longrightarrow> fault h op w = None \<Longrightarrow>
           (case act (w\<lparr>trace := trace w @ [Sys op]\<rparr>) of
              (Inl e, w') \<Rightarrow> E e w' | (Inr x, w') \<Rightarrow> Q x w')"
  shows "triple P (sys h op act) Q E"
  unfolding triple_def sys_def Let_def
proof (intro allI impI)
  fix w assume "P w"
  show "case case fault h op w of None \<Rightarrow> act (w\<lparr>trace := trace w @ [Sys op]\<rparr>)
             | Some e \<Rightarrow> (Inl e, w\<lparr>trace := trace w @ [Sys op]\<rparr>) of
        (Inl e, w') \<Rightarrow> E e w' | (Inr x, w') \<Rightarrow> Q x w'"
  proof (cases "fault h op w")
    case None
    with assms(2) [OF \<open>P w\<close>] show ?thesis by simp
  next
    case (Some e)
    with assms(1) [OF \<open>P w\<close>] show ?thesis by simp
  qed
qed

lemma triple_exec_sh:
  assumes "\<And>w r w'. P w \<Longrightarrow> exec h cmd w = (r, w') \<Longrightarrow>
             (case r of Inl e \<Rightarrow> E e (w'\<lparr>trace := trace w @ [Exec cmd]\<rparr>)
                      | Inr out \<Rightarrow> Q out (w'\<lparr>trace := trace w @ [Exec cmd]\<rparr>))"
  shows "triple P (exec_sh h cmd) Q E"
proof (rule tripleI)
  fix w r w' assume "P w" and run: "exec_sh h cmd w = (r, w')"
  obtain r1 w1 where m: "exec h cmd w = (r1, w1)" by (cases "exec h cmd w")
  from run m have "r = r1" "w' = w1\<lparr>trace := trace w @ [Exec cmd]\<rparr>"
    by (simp_all add: exec_sh_def)
  with assms [OF \<open>P w\<close> m] show "case r of Inl e \<Rightarrow> E e w' | Inr x \<Rightarrow> Q x w'"
    by (cases r1) simp_all
qed

lemma entered_append [simp]: "entered (xs @ ys) = entered xs @ entered ys"
  by (induction xs rule: entered.induct) auto

lemma written_append [simp]: "written (xs @ ys) = written xs @ written ys"
  by (induction xs rule: written.induct) auto

lemma executed_append [simp]: "executed (xs @ ys) = executed xs @ executed ys"
  by (induction xs rule: executed.induct) auto

subsection \<open>Outcomes of the file-system calls\<close>

lemma read_failed_trace [simp]: "read_failed p (w\<lparr>trace := t\<rparr>) = read_failed p w"
  by (simp add: read_failed_def)

lemma copy_failed_trace [simp]:
  "copy_failed src dst (w\<lparr>trace := t\<rparr>) = copy_failed src dst w"
  by (simp add: copy_failed_def)

lemma triple_fs_stat:
  assumes "\<And>w e. P w \<Longrightarrow> fault h (Stat p) w = Some e \<Longrightarrow>
             E e (w\<lparr>trace := trace w @ [Sys (Stat p)]\<rparr>)"
    and "\<And>w. P w \<Longrightarrow> fault h (Stat p) w = None \<Longrightarrow> files w p = None \<Longrightarrow> p \<notin> dirs w \<Longrightarrow>
             E (enoent ''stat'' p) (w\<lparr>trace := trace w @ [Sys (Stat p)]\<rparr>)"
    and "\<And>w. P w \<Longrightarrow> fault h (Stat p) w = None \<Longrightarrow> files w p = None \<Longrightarrow> p \<in> dirs w \<Longrightarrow>
             Q (dirSize h p) (w\<lparr>trace := trace w @ [Sys (Stat p)]\<rparr>)"
    and "\<And>w c. P w \<Longrightarrow> fault h (Stat p) w = None \<Longrightarrow> files w p = Some c \<Longrightarrow>
             Q (byteLength h c) (w\<lparr>trace := trace w @ [Sys (Stat p)]\<rparr>)"
  shows "triple P (fs_stat h p) Q E"
  unfolding fs_stat_def
  by (rule triple_sys) (use assms in \<open>auto split: option.splits\<close>)

lemma triple_readFile:
  assumes "\<And>w e. P w \<Longrightarrow> fault h (ReadText p) w = Some e \<Longrightarrow>
             E e (w\<lparr>trace := trace w @ [Sys (ReadText p)]\<rparr>)"
    and "\<And>w. P w \<Longrightarrow> fault h (ReadText p) w = None \<Longrightarrow> files w p = None \<Longrightarrow>
             E (read_failed p w) (w\<lparr>trace := trace w @ [Sys (ReadText p)]\<rparr>)"
    and "\<And>w c. P w \<Longrightarrow> fault h (ReadText p) w = None \<Longrightarrow> files w p = Some c \<Longrightarrow>
             Q c (w\<lparr>trace := trace w @ [Sys (ReadText p)]\<rparr>)"
  shows "triple P (readFile h p) Q E"
  unfolding readFile_def
  by (rule triple_sys) (use assms in \<open>auto split: option.splits\<close>)

lemma triple_fs_readFile:
  assumes "\<And>w e. P w \<Longrightarrow> fault h (ReadFile p) w = Some e \<Longrightarrow>
             E e (w\<lparr>trace := trace w @ [Sys (ReadFile p)]\<rparr>)"
    and "\<And>w. P w \<Longrightarrow> fault h (ReadFile p) w = None \<Longrightarrow> files w p = None \<Longrightarrow>
             E (read_failed p w) (w\<lparr>trace := trace w @ [Sys (ReadFile p)]\<rparr>)"
    and "\<And>w c. P w \<Longrightarrow> fault h (ReadFile p) w = None \<Longrightarrow> files w p = Some c \<Longrightarrow>
             Q c (w\<lparr>trace := trace w @ [Sys (ReadFile p)]\<rparr>)"
  shows "triple P (fs_readFile h p) Q E"
  unfolding fs_readFile_def
  by (rule triple_sys) (use assms in \<open>auto split: option.splits\<close>)

lemma triple_writeFile:
  assumes "\<And>w e. P w \<Longrightarrow> fault h (WriteText p) w = Some e \<Longrightarrow>
             E e (w\<lparr>trace := trace w @ [Sys (WriteText p)]\<rparr>)"
    and "\<And>w. P w \<Longrightarrow> fault h (WriteText p) w = None \<Longrightarrow>
             Q () (w\<lparr>trace := trace w @ [Sys (WriteText p)], files := (files w)(p \<mapsto> c)\<rparr>)"
  shows "triple P (writeFile h p c) Q E"
  unfolding writeFile_def
  by (rule triple_sys) (use assms in auto)


lemma triple_fs_mkdir:
  assumes "\<And>w e. P w \<Longrightarrow> fault h (Mkdir p) w = Some e \<Longrightarrow>
             E e (w\<lparr>trace := trace w @ [Sys (Mkdir p)]\<rparr>)"
    and "\<And>w. P w \<Longrightarrow> fault h (Mkdir p) w = None \<Longrightarrow>
             Q () (w\<lparr>trace := trace w @ [Sys (Mkdir p)], dirs := insert p (dirs w)\<rparr>)"
  shows "triple P (fs_mkdir h p) Q E"
  unfolding fs_mkdir_def
  by (rule triple_sys) (use assms in auto)

lemma triple_fs_copyFile:
  assumes "\<And>w e. P w \<Longrightarrow> fault h (CopyFile src dst) w = Some e \<Longrightarrow>
             E e (w\<lparr>trace := trace w @ [Sys (CopyFile src dst)]\<rparr>)"
    and "\<And>w. P w \<Longrightarrow> fault h (CopyFile src dst) w = None \<Longrightarrow> files w src = None \<Longrightarrow>
             E (copy_failed src dst w) (w\<lparr>trace := trace w @ [Sys (CopyFile src dst)]\<rparr>)"
    and "\<And>w c. P w \<Longrightarrow> fault h (CopyFile src dst) w = None \<Longrightarrow> files w src = Some c \<Longrightarrow>
             Q () (w\<lparr>trace := trace w @ [Sys (CopyFile src dst)],
                     files := (files w)(dst \<mapsto> c)\<rparr>)"
  shows "triple P (fs_copyFile h src dst) Q E"
  unfolding fs_copyFile_def
  by (rule triple_sys) (use assms in \<open>auto split: option.splits\<close>)

lemma triple_fs_rm:
  assumes "\<And>w e. P w \<Longrightarrow> fault h (Rm p) w = Some e \<Longrightarrow>
             E e (w\<lparr>trace := trace w @ [Sys (Rm p)]\<rparr>)"
    and "\<And>w. P w \<Longrightarrow> fault h (Rm p) w = None \<Longrightarrow>
             Q () (w\<lparr>trace := trace w @ [Sys (Rm p)],
                     files := (\<lambda>q. if within p q then None else files w q),
                     dirs := {d \<in> dirs w. \<not> within p d}\<rparr>)"
  shows "triple P (fs_rm h p) Q E"
  unfolding fs_rm_def
  by (rule triple_sys) (use assms in \<open>auto cong: if_cong\<close>)

subsection \<open>The diff/patch engine on a file without the search text\<close>

lemma leaves_aloneD:
  assumes "leaves_alone h cmd q" "exec h cmd w = (r, w')" "files w q = Some c"
  shows "files w' q = Some c"
proof -
  from assms(1) have "keeps_file q w (snd (exec h cmd w))"
    unfolding leaves_alone_def by (rule spec)
  then have "\<forall>c. files w q = Some c \<longrightarrow> files w' q = Some c"
    unfolding keeps_file_def assms(2) by simp
  with assms(3) show ?thesis by simp
qed

lemma triple_assume: "(B \<Longrightarrow> triple P m Q E) \<Longrightarrow> triple (\<lambda>w. B \<and> P w) m Q E"
  unfolding triple_def by simp

lemma gitBasedReplace_try_absent:
  assumes absent: "\<not> sublist (search b) c"
    and init: "leaves_alone h (cmd_init (tempDir_of h)) p"
      "leaves_alone h (cmd_init (tempDir_of h)) (path_join h (tempDir_of h) (basename p))"
    and commit: "leaves_alone h (cmd_commit (tempDir_of h) (basename p)) p"
      "leaves_alone h (cmd_commit (tempDir_of h) (basename p))
         (path_join h (tempDir_of h) (basename p))"
  shows "triple (\<lambda>w. files w p = Some c \<and> written (trace w) = ws)
           (gitBasedReplace_try h p b)
           (\<lambda>u w. False)
           (\<lambda>e w. files w p = Some c \<and> written (trace w) = ws)"
proof -
  let ?D = "tempDir_of h" and ?N = "basename p" and ?T = "dirname p"
  let ?tf = "path_join h ?D ?N" and ?PF = "path_join h ?D ''changes.patch''"
  let ?s = "search b"
  from absent have idx: "indexOf c ?s = - 1" by (simp add: indexOf_absent)
  let ?A0 = "\<lambda>w. files w p = Some c \<and> written (trace w) = ws"
  let ?A1 = "\<lambda>w. files w p = Some c \<and> written (trace w) = ws \<and> files w ?tf = Some c"

  have step_mkdir: "triple ?A0 (fs_mkdir h ?D) (\<lambda>u. ?A0) (\<lambda>e. ?A0)"
    by (rule triple_fs_mkdir) simp_all

  have step_copy: "triple ?A0 (fs_copyFile h p ?tf) (\<lambda>u. ?A1) (\<lambda>e. ?A0)"
    by (rule triple_fs_copyFile) simp_all

  have step_sh: "triple ?A1 (exec_sh h cmd) (\<lambda>out. ?A1) (\<lambda>e. ?A0)"
    if keeps: "leaves_alone h cmd p" "leaves_alone h cmd ?tf" for cmd
  proof (rule triple_exec_sh)
    fix w r w' assume a: "?A1 w" and run: "exec h cmd w = (r, w')"
    from a have "files w p = Some c" "files w ?tf = Some c" by simp_all
    from leaves_aloneD [OF keeps(1) run this(1)] leaves_aloneD [OF keeps(2) run this(2)]
    have "files w' p = Some c" "files w' ?tf = Some c" .
    with a show "case r of Inl e \<Rightarrow> ?A0 (w'\<lparr>trace := trace w @ [Exec cmd]\<rparr>)
                 | Inr out \<Rightarrow> ?A1 (w'\<lparr>trace := trace w @ [Exec cmd]\<rparr>)"
      by (cases r) simp_all
  qed

  have step_read: "triple ?A1 (fs_readFile h ?tf) (\<lambda>content w. content = c \<and> ?A1 w) (\<lambda>e. ?A0)"
    by (rule triple_fs_readFile) simp_all

  have rej: "triple ?A1 (rejected (Error (''Search content not found in '' @ p)))
               (\<lambda>u w. False) (\<lambda>e. ?A0)"
    by (rule triple_rejected) simp

  have branch: "triple (\<lambda>w. content = c \<and> ?A1 w)
     (let searchIndex = indexOf content ?s
      in if searchIndex = - 1
         then rejected (Error (''Search content not found in '' @ p))
         else
           let newContent =
                 substring content 0 searchIndex @
                 replace b @
                 substring_from content (searchIndex + int (length ?s))
           in
           await (fs_writeFile h ?tf newContent) (\<lambda>_.
           await (exec_sh h (cmd_diff ?D)) (\<lambda>patchContent.
             let patchFile = ?PF
             in
             await (fs_writeFile h patchFile patchContent) (\<lambda>_.
             try_catch
               (await (exec_sh h (cmd_apply ?T patchFile)) (\<lambda>_. resolved ()))
               (\<lambda>applyError.
                  try_catch
                    (await (exec_sh h (cmd_apply3way ?T patchFile))
                       (\<lambda>_. resolved ()))
                    (\<lambda>retryError.
                       rejected (Error (''Failed to apply changes: '' @
                                        error_toString retryError))))))))
     (\<lambda>u w. False) (\<lambda>e. ?A0)" for content
  proof (rule triple_assume)
    assume "content = c"
    with idx rej show "triple ?A1
     (let searchIndex = indexOf content ?s
      in if searchIndex = - 1
         then rejected (Error (''Search content not found in '' @ p))
         else
           let newContent =
                 substring content 0 searchIndex @
                 replace b @
                 substring_from content (searchIndex + int (length ?s))
           in
           await (fs_writeFile h ?tf newContent) (\<lambda>_.
           await (exec_sh h (cmd_diff ?D)) (\<lambda>patchContent.
             let patchFile = ?PF
             in
             await (fs_writeFile h patchFile patchContent) (\<lambda>_.
             try_catch
               (await (exec_sh h (cmd_apply ?T patchFile)) (\<lambda>_. resolved ()))
               (\<lambda>applyError.
                  try_catch
                    (await (exec_sh h (cmd_apply3way ?T patchFile))
                       (\<lambda>_. resolved ()))
                    (\<lambda>retryError.
                       rejected (Error (''Failed to apply changes: '' @
                                        error_toString retryError))))))))
     (\<lambda>u w. False) (\<lambda>e. ?A0)"
      by (simp add: Let_def)
  qed

  show ?thesis
    unfolding gitBasedReplace_try_def Let_def
    by (rule triple_await [OF step_mkdir], rule triple_await [OF step_copy],
        rule triple_await [OF step_sh [OF init]], rule triple_await [OF step_sh [OF commit]],
        rule triple_await [OF step_read], rule branch [unfolded Let_def])
qed

subsection \<open>The finally block and the whole diff/patch engine\<close>

lemma gitBasedReplace_finally_keeps:
  assumes "\<not> within (tempDir_of h) p"
  shows "triple (\<lambda>w. F (files w p) (written (trace w)))
           (gitBasedReplace_finally h)
           (\<lambda>u w. F (files w p) (written (trace w)))
           (\<lambda>e w. False)"
  unfolding gitBasedReplace_finally_def
proof (rule triple_try_catch
    [where R = "\<lambda>e w. F (files w p) (written (trace w))"])
  show "triple (\<lambda>w. F (files w p) (written (trace w))) (fs_rm h (tempDir_of h))
          (\<lambda>u w. F (files w p) (written (trace w)))
          (\<lambda>e w. F (files w p) (written (trace w)))"
    by (rule triple_fs_rm) (use assms in simp_all)
  show "triple (\<lambda>w. F (files w p) (written (trace w)))
          (console_error (''Failed to clean up temp directory: '' @ error_toString e))
          (\<lambda>u w. F (files w p) (written (trace w))) (\<lambda>e w. False)" for e
    unfolding console_error_def by (rule triple_emit) simp
qed

lemma staging_harmlessD:
  assumes "staging_harmless h p"
  shows "leaves_alone h (cmd_init (tempDir_of h)) p"
    and "leaves_alone h (cmd_init (tempDir_of h)) (path_join h (tempDir_of h) (basename p))"
    and "leaves_alone h (cmd_commit (tempDir_of h) (basename p)) p"
    and "leaves_alone h (cmd_commit (tempDir_of h) (basename p))
           (path_join h (tempDir_of h) (basename p))"
    and "\<not> within (tempDir_of h) p"
  using assms unfolding staging_harmless_def Let_def by simp_all

lemma gitBasedReplace_absent:
  assumes absent: "\<not> sublist (search b) c" and ok: "staging_harmless h p"
  shows "triple (\<lambda>w. files w p = Some c \<and> written (trace w) = ws)
           (gitBasedReplace h p b)
           (\<lambda>u w. False)
           (\<lambda>e w. files w p = Some c \<and> written (trace w) = ws)"
proof -
  let ?P = "\<lambda>w. files w p = Some c \<and> written (trace w) = ws"
  have enter: "triple ?P (emit (Enter ''gitBasedReplace'')) (\<lambda>u. ?P) (\<lambda>e. ?P)"
    by (rule triple_emit) simp
  have body: "triple ?P (gitBasedReplace_try h p b) (\<lambda>u w. False) (\<lambda>e. ?P)"
    by (rule gitBasedReplace_try_absent [OF absent])
       (rule staging_harmlessD [OF ok])+
  have fin_ok: "triple (\<lambda>w. False) (gitBasedReplace_finally h) (\<lambda>u w. False) (\<lambda>e. ?P)"
    unfolding triple_def by simp
  have fin_err: "triple ?P (gitBasedReplace_finally h) (\<lambda>u. ?P) (\<lambda>e. ?P)"
    by (rule triple_weaken
        [OF gitBasedReplace_finally_keeps
          [OF staging_harmlessD(5) [OF ok], where F = "\<lambda>f t. f = Some c \<and> t = ws"]])
       simp_all
  show ?thesis
    unfolding gitBasedReplace_def
    by (rule triple_await [OF enter], rule triple_try_finally [OF body], rule fin_ok,
        rule fin_err)
qed

subsection \<open>The in-memory engine\<close>

lemma simpleInMemoryReplace_found:
  assumes nf: "no_faults h" and fo: "first_occurrence c (search b) pre post"
  shows "triple (\<lambda>w. files w p = Some c) (simpleInMemoryReplace h p b)
           (\<lambda>u w. files w p = Some (pre @ replace b @ post)) (\<lambda>e w. False)"
proof -
  from nf have nofault [simp]: "fault h op w = None" for op w
    unfolding no_faults_def by simp
  let ?s = "search b"
  from fo have sub: "sublist ?s c" unfolding first_occurrence_def sublist_def by blast
  from indexOf_first_occurrence [OF sub] obtain pre' post' where
    fo': "first_occurrence c ?s pre' post'" and
    ss: "substring c 0 (indexOf c ?s) = pre'"
        "substring_from c (indexOf c ?s + int (length ?s)) = post'" by blast
  from first_occurrence_unique [OF fo fo'] have eq: "pre' = pre" "post' = post" by simp_all
  from sub have idx: "indexOf c ?s \<noteq> - 1" by (simp add: indexOf_absent)
  let ?P = "\<lambda>w. files w p = Some c"
  have enter: "triple ?P (emit (Enter ''simpleInMemoryReplace'')) (\<lambda>u. ?P) (\<lambda>e w. False)"
    by (rule triple_emit) simp
  have read: "triple ?P (readFile h p) (\<lambda>content w. content = c \<and> ?P w) (\<lambda>e w. False)"
    by (rule triple_readFile) simp_all
  have wr: "triple ?P (writeFile h p (pre @ replace b @ post))
              (\<lambda>u w. files w p = Some (pre @ replace b @ post)) (\<lambda>e w. False)"
    by (rule triple_writeFile) simp_all
  have same: "pre @ replace b @ post = c \<Longrightarrow>
      triple ?P (resolved ()) (\<lambda>u w. files w p = Some (pre @ replace b @ post)) (\<lambda>e w. False)"
    by (rule triple_resolved) simp
  have body: "triple (\<lambda>w. content = c \<and> ?P w)
     (let searchIndex = indexOf content ?s
      in if searchIndex = - 1
         then rejected (Error (''Search content not found in '' @ p))
         else
           let newContent =
                 substring content 0 searchIndex @
                 replace b @
                 substring_from content (searchIndex + int (length ?s))
           in if newContent \<noteq> content then writeFile h p newContent
              else resolved ())
     (\<lambda>u w. files w p = Some (pre @ replace b @ post)) (\<lambda>e w. False)" for content
  proof (rule triple_assume)
    assume "content = c"
    with idx ss eq wr same show "triple ?P
     (let searchIndex = indexOf content ?s
      in if searchIndex = - 1
         then rejected (Error (''Search content not found in '' @ p))
         else
           let newContent =
                 substring content 0 searchIndex @
                 replace b @
                 substring_from content (searchIndex + int (length ?s))
           in if newContent \<noteq> content then writeFile h p newContent
              else resolved ())
     (\<lambda>u w. files w p = Some (pre @ replace b @ post)) (\<lambda>e w. False)"
      by (simp add: Let_def)
  qed
  show ?thesis
    unfolding simpleInMemoryReplace_def
    by (rule triple_await [OF enter], rule triple_await [OF read], rule body)
qed

lemma simpleInMemoryReplace_absent:
  assumes absent: "\<not> sublist (search b) c"
  shows "triple (\<lambda>w. files w p = Some c \<and> written (trace w) = ws)
           (simpleInMemoryReplace h p b)
           (\<lambda>u w. False)
           (\<lambda>e w. files w p = Some c \<and> written (trace w) = ws)"
proof -
  let ?s = "search b"
  from absent have idx: "indexOf c ?s = - 1" by (simp add: indexOf_absent)
  let ?P = "\<lambda>w. files w p = Some c \<and> written (trace w) = ws"
  have enter: "triple ?P (emit (Enter ''simpleInMemoryReplace'')) (\<lambda>u. ?P) (\<lambda>e. ?P)"
    by (rule triple_emit) simp
  have read: "triple ?P (readFile h p) (\<lambda>content w. content = c \<and> ?P w) (\<lambda>e. ?P)"
    by (rule triple_readFile) simp_all
  have rej: "triple ?P (rejected (Error (''Search content not found in '' @ p)))
               (\<lambda>u w. False) (\<lambda>e. ?P)"
    by (rule triple_rejected) simp
  have body: "triple (\<lambda>w. content = c \<and> ?P w)
     (let searchIndex = indexOf content ?s
      in if searchIndex = - 1
         then rejected (Error (''Search content not found in '' @ p))
         else
           let newContent =
                 substring content 0 searchIndex @
                 replace b @
                 substring_from content (searchIndex + int (length ?s))
           in if newContent \<noteq> content then writeFile h p newContent
              else resolved ())
     (\<lambda>u w. False) (\<lambda>e. ?P)" for content
  proof (rule triple_assume)
    assume "content = c"
    with idx rej show "triple ?P
     (let searchIndex = indexOf content ?s
      in if searchIndex = - 1
         then rejected (Error (''Search content not found in '' @ p))
         else
           let newContent =
                 substring content 0 searchIndex @
                 replace b @
                 substring_from content (searchIndex + int (length ?s))
           in if newContent \<noteq> content then writeFile h p newContent
              else resolved ())
     (\<lambda>u w. False) (\<lambda>e. ?P)"
      by (simp add: Let_def)
  qed
  show ?thesis
    unfolding simpleInMemoryReplace_def
    by (rule triple_await [OF enter], rule triple_await [OF read], rule body)
qed

lemma triple_rethrow:
  assumes "triple P m Q
             (\<lambda>e. E (Error (''Failed to perform search/replace: '' @ message e)))"
  shows "triple P (rethrow m) Q E"
  unfolding rethrow_def
proof (rule triple_try_catch [OF assms])
  fix e
  show "triple (E (Error (''Failed to perform search/replace: '' @ message e)))
          (rejected (Error (''Failed to perform search/replace: '' @ message e))) Q E"
    by (rule triple_rejected)
qed

section \<open>The strategy selector: results\<close>

lemma console_warn_keeps:
  "triple (\<lambda>w. F (files w p) (written (trace w))) (console_warn s)
     (\<lambda>u w. F (files w p) (written (trace w))) E"
  unfolding console_warn_def by (rule triple_emit) simp

lemma performSearchReplace_small_found:
  assumes fo: "first_occurrence c (search b) pre post"
    and nf: "no_faults h"
    and small: "byteLength h c < 1000000"
  shows "triple (\<lambda>w. files w p = Some c)
           (performSearchReplace h p b)
           (\<lambda>u w. files w p = Some (pre @ replace b @ post)) (\<lambda>e w. False)"
proof -
  from nf have nofault [simp]: "fault h op w = None" for op w
    unfolding no_faults_def by simp
  let ?P = "\<lambda>w. files w p = Some c"
  let ?Q = "\<lambda>w. files w p = Some (pre @ replace b @ post)"
  have stat: "triple ?P (fs_stat h p) (\<lambda>size w. size = byteLength h c \<and> ?P w) (\<lambda>e w. False)"
    by (rule triple_fs_stat) simp_all
  have simple: "triple ?P (simpleInMemoryReplace h p b) (\<lambda>u. ?Q) (\<lambda>e w. False)"
    by (rule simpleInMemoryReplace_found [OF nf fo])
  have body: "triple (\<lambda>w. size = byteLength h c \<and> ?P w)
      (if size < 1000000 then simpleInMemoryReplace h p b
       else
         try_catch (gitBasedReplace h p b)
           (\<lambda>gitError.
              await (console_warn
                       (''Git-based replace failed, falling back to simple replace: '' @
                        error_toString gitError)) (\<lambda>_.
              simpleInMemoryReplace h p b)))
      (\<lambda>u. ?Q) (\<lambda>e w. False)" for size
  proof (rule triple_assume)
    assume "size = byteLength h c"
    with small simple show "triple ?P
      (if size < 1000000 then simpleInMemoryReplace h p b
       else
         try_catch (gitBasedReplace h p b)
           (\<lambda>gitError.
              await (console_warn
                       (''Git-based replace failed, falling back to simple replace: '' @
                        error_toString gitError)) (\<lambda>_.
              simpleInMemoryReplace h p b)))
      (\<lambda>u. ?Q) (\<lambda>e w. False)"
      by simp
  qed
  show ?thesis
    unfolding performSearchReplace_def
    by (rule triple_rethrow, rule triple_await [OF stat], rule body)
qed

lemma performSearchReplace_absent:
  assumes absent: "\<not> sublist (search b) c"
    and env: "byteLength h c < 1000000 \<or> staging_harmless h p"
  shows "triple (\<lambda>w. files w p = Some c \<and> written (trace w) = ws)
           (performSearchReplace h p b)
           (\<lambda>u w. False)
           (\<lambda>e w. files w p = Some c \<and> written (trace w) = ws)"
proof -
  let ?P = "\<lambda>w. files w p = Some c \<and> written (trace w) = ws"
  have stat: "triple ?P (fs_stat h p) (\<lambda>size w. size = byteLength h c \<and> ?P w) (\<lambda>e. ?P)"
    by (rule triple_fs_stat) simp_all
  have simple: "triple ?P (simpleInMemoryReplace h p b) (\<lambda>u w. False) (\<lambda>e. ?P)"
    by (rule simpleInMemoryReplace_absent [OF absent])
  have body: "triple (\<lambda>w. size = byteLength h c \<and> ?P w)
      (if size < 1000000 then simpleInMemoryReplace h p b
       else
         try_catch (gitBasedReplace h p b)
           (\<lambda>gitError.
              await (console_warn
                       (''Git-based replace failed, falling back to simple replace: '' @
                        error_toString gitError)) (\<lambda>_.
              simpleInMemoryReplace h p b)))
      (\<lambda>u w. False) (\<lambda>e. ?P)" for size
  proof (rule triple_assume)
    assume size: "size = byteLength h c"
    show "triple ?P
      (if size < 1000000 then simpleInMemoryReplace h p b
       else
         try_catch (gitBasedReplace h p b)
           (\<lambda>gitError.
              await (console_warn
                       (''Git-based replace failed, falling back to simple replace: '' @
                        error_toString gitError)) (\<lambda>_.
              simpleInMemoryReplace h p b)))
      (\<lambda>u w. False) (\<lambda>e. ?P)"
    proof (cases "size < 1000000")
      case True
      with simple show ?thesis by simp
    next
      case False
      with env size have ok: "staging_harmless h p" by simp
      have git: "triple ?P (gitBasedReplace h p b) (\<lambda>u w. False) (\<lambda>e. ?P)"
        by (rule gitBasedReplace_absent [OF absent ok])
      have warn: "triple ?P (console_warn s) (\<lambda>u. ?P) (\<lambda>e. ?P)" for s
        by (rule console_warn_keeps [where F = "\<lambda>f t. f = Some c \<and> t = ws"])
      have "triple ?P
         (try_catch (gitBasedReplace h p b)
           (\<lambda>gitError.
              await (console_warn
                       (''Git-based replace failed, falling back to simple replace: '' @
                        error_toString gitError)) (\<lambda>_.
              simpleInMemoryReplace h p b)))
         (\<lambda>u w. False) (\<lambda>e. ?P)"
        by (rule triple_try_catch [OF git], rule triple_await [OF warn], rule simple)
      with False show ?thesis by simp
    qed
  qed
  show ?thesis
    unfolding performSearchReplace_def
    by (rule triple_rethrow, rule triple_await [OF stat], rule body)
qed

section \<open>What a run adds to the record\<close>

lemma trace_stableI:
  "(\<And>w r w'. m w = (r, w') \<Longrightarrow> J (trace w) \<Longrightarrow> J (trace w')) \<Longrightarrow> trace_stable J m"
  unfolding trace_stable_def by simp

lemma trace_stableD:
  "trace_stable J m \<Longrightarrow> m w = (r, w') \<Longrightarrow> J (trace w) \<Longrightarrow> J (trace w')"
  unfolding trace_stable_def by (erule allE [of _ w], erule allE [of _ r], erule allE [of _ w']) simp

lemma ts_resolved: "trace_stable J (resolved x)"
  by (rule trace_stableI) (simp add: resolved_def)

lemma ts_rejected: "trace_stable J (rejected e)"
  by (rule trace_stableI) (simp add: rejected_def)

lemma ts_emit: "(\<And>t. J t \<Longrightarrow> J (t @ [ev])) \<Longrightarrow> trace_stable J (emit ev)"
  by (rule trace_stableI) (auto simp add: emit_def)

lemma ts_await:
  assumes "trace_stable J m" "\<And>x. trace_stable J (f x)"
  shows "trace_stable J (await m f)"
proof (rule trace_stableI)
  fix w r w' assume run: "await m f w = (r, w')" and J: "J (trace w)"
  obtain r1 w1 where m: "m w = (r1, w1)" by (cases "m w")
  from trace_stableD [OF assms(1) m J] have J1: "J (trace w1)" .
  show "J (trace w')"
  proof (cases r1)
    case (Inl e)
    with run m J1 show ?thesis by (simp add: await_def)
  next
    case (Inr x)
    with run m have "f x w1 = (r, w')" by (simp add: await_def)
    from trace_stableD [OF assms(2) this J1] show ?thesis .
  qed
qed

lemma ts_try_catch:
  assumes "trace_stable J m" "\<And>e. trace_stable J (handler e)"
  shows "trace_stable J (try_catch m handler)"
proof (rule trace_stableI)
  fix w r w' assume run: "try_catch m handler w = (r, w')" and J: "J (trace w)"
  obtain r1 w1 where m: "m w = (r1, w1)" by (cases "m w")
  from trace_stableD [OF assms(1) m J] have J1: "J (trace w1)" .
  show "J (trace w')"
  proof (cases r1)
    case (Inr x)
    with run m J1 show ?thesis by (simp add: try_catch_def)
  next
    case (Inl e)
    with run m have "handler e w1 = (r, w')" by (simp add: try_catch_def)
    from trace_stableD [OF assms(2) this J1] show ?thesis .
  qed
qed

lemma ts_if:
  "trace_stable J m1 \<Longrightarrow> trace_stable J m2 \<Longrightarrow> trace_stable J (if b then m1 else m2)"
  by simp

lemma ts_sys:
  assumes "\<And>t. J t \<Longrightarrow> J (t @ [Sys op])"
    and "\<And>w r w'. act w = (r, w') \<Longrightarrow> trace w' = trace w"
  shows "trace_stable J (sys h op act)"
proof (rule trace_stableI)
  fix w r w' assume run: "sys h op act w = (r, w')" and J: "J (trace w)"
  show "J (trace w')"
  proof (cases "fault h op w")
    case (Some e)
    with run have "w' = w\<lparr>trace := trace w @ [Sys op]\<rparr>" by (simp add: sys_def Let_def)
    with assms(1) [OF J] show ?thesis by simp
  next
    case None
    with run have "act (w\<lparr>trace := trace w @ [Sys op]\<rparr>) = (r, w')"
      by (simp add: sys_def Let_def)
    from assms(2) [OF this] assms(1) [OF J] show ?thesis by simp
  qed
qed

lemma ts_fs_mkdir: "(\<And>t. J t \<Longrightarrow> J (t @ [Sys (Mkdir p)])) \<Longrightarrow> trace_stable J (fs_mkdir h p)"
  unfolding fs_mkdir_def by (rule ts_sys) auto

lemma ts_fs_copyFile:
  "(\<And>t. J t \<Longrightarrow> J (t @ [Sys (CopyFile src dst)])) \<Longrightarrow> trace_stable J (fs_copyFile h src dst)"
  unfolding fs_copyFile_def by (rule ts_sys) (auto split: option.splits)

lemma ts_fs_readFile:
  "(\<And>t. J t \<Longrightarrow> J (t @ [Sys (ReadFile p)])) \<Longrightarrow> trace_stable J (fs_readFile h p)"
  unfolding fs_readFile_def by (rule ts_sys) (auto split: option.splits)

lemma ts_fs_writeFile:
  "(\<And>t. J t \<Longrightarrow> J (t @ [Sys (WriteFile p)])) \<Longrightarrow> trace_stable J (fs_writeFile h p c)"
  unfolding fs_writeFile_def by (rule ts_sys) auto

lemma ts_readFile:
  "(\<And>t. J t \<Longrightarrow> J (t @ [Sys (ReadText p)])) \<Longrightarrow> trace_stable J (readFile h p)"
  unfolding readFile_def by (rule ts_sys) (auto split: option.splits)

lemma ts_writeFile:
  "(\<And>t. J t \<Longrightarrow> J (t @ [Sys (WriteText p)])) \<Longrightarrow> trace_stable J (writeFile h p c)"
  unfolding writeFile_def by (rule ts_sys) auto

lemma ts_exec_sh:
  assumes "\<And>t. J t \<Longrightarrow> J (t @ [Exec cmd])"
  shows "trace_stable J (exec_sh h cmd)"
proof (rule trace_stableI)
  fix w r w' assume run: "exec_sh h cmd w = (r, w')" and J: "J (trace w)"
  obtain r1 w1 where "exec h cmd w = (r1, w1)" by (cases "exec h cmd w")
  with run have "trace w' = trace w @ [Exec cmd]" by (auto simp add: exec_sh_def)
  with assms [OF J] show "J (trace w')" by simp
qed

lemma gitBasedReplace_try_stable:
  assumes closed: "\<And>t ev. J t \<Longrightarrow> ev \<in> try_events h p \<Longrightarrow> J (t @ [ev])"
  shows "trace_stable J (gitBasedReplace_try h p b)"
  unfolding gitBasedReplace_try_def Let_def
  by (intro ts_await ts_try_catch ts_if ts_resolved ts_rejected ts_fs_mkdir ts_fs_copyFile
      ts_fs_readFile ts_fs_writeFile ts_exec_sh closed)
     (simp_all add: try_events_def Let_def)

lemma gitBasedReplace_try_trace:
  assumes "gitBasedReplace_try h p b w = (r, w')"
  shows "\<exists>evs. trace w' = trace w @ evs \<and> set evs \<subseteq> try_events h p"
proof -
  let ?J = "\<lambda>t. \<exists>evs. t = trace w @ evs \<and> set evs \<subseteq> try_events h p"
  have "trace_stable ?J (gitBasedReplace_try h p b)"
  proof (rule gitBasedReplace_try_stable)
    fix t ev assume "?J t" and ev: "ev \<in> try_events h p"
    then obtain evs where "t = trace w @ evs" "set evs \<subseteq> try_events h p" by blast
    with ev have "t @ [ev] = trace w @ (evs @ [ev]) \<and> set (evs @ [ev]) \<subseteq> try_events h p"
      by simp
    then show "?J (t @ [ev])" by blast
  qed
  from trace_stableD [OF this assms] show ?thesis by simp
qed

lemma try_events_entered: "set evs \<subseteq> try_events h p \<Longrightarrow> entered evs = []"
proof (induction evs)
  case Nil
  show ?case by simp
next
  case (Cons ev evs)
  then have "ev \<in> try_events h p" and "entered evs = []" by simp_all
  then show ?case by (auto simp add: try_events_def Let_def)
qed

lemma try_events_executed:
  "set evs \<subseteq> try_events h p \<Longrightarrow>
   set (executed evs) \<subseteq>
     {cmd_init (tempDir_of h), cmd_commit (tempDir_of h) (basename p), cmd_diff (tempDir_of h),
      cmd_apply (dirname p) (path_join h (tempDir_of h) ''changes.patch''),
      cmd_apply3way (dirname p) (path_join h (tempDir_of h) ''changes.patch'')}"
proof (induction evs)
  case Nil
  show ?case by simp
next
  case (Cons ev evs)
  then have "ev \<in> try_events h p" and
    "set (executed evs) \<subseteq>
     {cmd_init (tempDir_of h), cmd_commit (tempDir_of h) (basename p), cmd_diff (tempDir_of h),
      cmd_apply (dirname p) (path_join h (tempDir_of h) ''changes.patch''),
      cmd_apply3way (dirname p) (path_join h (tempDir_of h) ''changes.patch'')}" by simp_all
  then show ?case by (auto simp add: try_events_def Let_def)
qed

section \<open>Engines entered, cleanup and command lines\<close>

lemma ts_try_finally:
  assumes "trace_stable J m" "trace_stable J cleanup"
  shows "trace_stable J (try_finally m cleanup)"
proof (rule trace_stableI)
  fix w r w' assume run: "try_finally m cleanup w = (r, w')" and J: "J (trace w)"
  obtain r1 w1 where m: "m w = (r1, w1)" by (cases "m w")
  obtain r2 w2 where c: "cleanup w1 = (r2, w2)" by (cases "cleanup w1")
  from trace_stableD [OF assms(2) c trace_stableD [OF assms(1) m J]] have "J (trace w2)" .
  moreover from run m c have "w' = w2" by (cases r2) (simp_all add: try_finally_def)
  ultimately show "J (trace w')" by simp
qed

lemma ts_fs_rm: "(\<And>t. J t \<Longrightarrow> J (t @ [Sys (Rm p)])) \<Longrightarrow> trace_stable J (fs_rm h p)"
  unfolding fs_rm_def by (rule ts_sys) auto

lemma await_emit: "await (emit ev) f w = f () (w\<lparr>trace := trace w @ [ev]\<rparr>)"
  by (simp add: await_def emit_def)

lemma fs_stat_trace:
  "fs_stat h p w = (r, w1) \<Longrightarrow> trace w1 = trace w @ [Sys (Stat p)]"
  by (auto simp add: fs_stat_def sys_def Let_def split: option.splits if_splits)

lemma simpleInMemoryReplace_entered:
  assumes "simpleInMemoryReplace h p b w = (r, w')"
  shows "entered (trace w') = entered (trace w) @ [''simpleInMemoryReplace'']"
proof -
  let ?J = "\<lambda>t. entered t = entered (trace w) @ [''simpleInMemoryReplace'']"
  let ?rest = "await (readFile h p) (\<lambda>content.
       let searchIndex = indexOf content (search b)
       in if searchIndex = - 1
          then rejected (Error (''Search content not found in '' @ p))
          else
            let newContent =
                  substring content 0 searchIndex @
                  replace b @
                  substring_from content (searchIndex + int (length (search b)))
            in if newContent \<noteq> content then writeFile h p newContent
               else resolved ())"
  have "trace_stable ?J ?rest"
    unfolding Let_def
    by (intro ts_await ts_if ts_resolved ts_rejected ts_readFile ts_writeFile) simp_all
  moreover from assms
  have "?rest (w\<lparr>trace := trace w @ [Enter ''simpleInMemoryReplace'']\<rparr>) = (r, w')"
    by (simp add: simpleInMemoryReplace_def await_emit)
  ultimately show ?thesis by (rule trace_stableD) simp
qed

lemma gitBasedReplace_finally_stable:
  assumes "\<And>t. J t \<Longrightarrow> J (t @ [Sys (Rm (tempDir_of h))])"
    and "\<And>t s. J t \<Longrightarrow> J (t @ [ConsoleError s])"
  shows "trace_stable J (gitBasedReplace_finally h)"
  unfolding gitBasedReplace_finally_def console_error_def
  by (intro ts_try_catch ts_fs_rm ts_emit assms)

lemma gitBasedReplace_entered:
  assumes "gitBasedReplace h p b w = (r, w')"
  shows "entered (trace w') = entered (trace w) @ [''gitBasedReplace'']"
proof -
  let ?J = "\<lambda>t. entered t = entered (trace w) @ [''gitBasedReplace'']"
  have "trace_stable ?J
          (try_finally (gitBasedReplace_try h p b) (gitBasedReplace_finally h))"
  proof (intro ts_try_finally gitBasedReplace_try_stable gitBasedReplace_finally_stable)
    fix t ev assume "?J t" "ev \<in> try_events h p"
    with try_events_entered [of "[ev]" h p] show "?J (t @ [ev])" by simp
  qed simp_all
  moreover from assms
  have "try_finally (gitBasedReplace_try h p b) (gitBasedReplace_finally h)
          (w\<lparr>trace := trace w @ [Enter ''gitBasedReplace'']\<rparr>) = (r, w')"
    by (simp add: gitBasedReplace_def await_emit)
  ultimately show ?thesis by (rule trace_stableD) simp
qed

lemma gitBasedReplace_finally_run:
  "gitBasedReplace_finally h w1 =
     (Inr (),
      case fault h (Rm (tempDir_of h)) w1 of
        None \<Rightarrow>
          w1\<lparr>trace := trace w1 @ [Sys (Rm (tempDir_of h))],
             files := (\<lambda>q. if within (tempDir_of h) q then None else files w1 q),
             dirs := {d \<in> dirs w1. \<not> within (tempDir_of h) d}\<rparr>
      | Some e \<Rightarrow>
          w1\<lparr>trace := trace w1 @
                [Sys (Rm (tempDir_of h)),
                 ConsoleError (''Failed to clean up temp directory: '' @ error_toString e)]\<rparr>)"
  by (simp add: gitBasedReplace_finally_def try_catch_def fs_rm_def sys_def Let_def
      console_error_def emit_def split: option.splits cong: if_cong)

lemma fields_acc_no_blank:
  "x \<in> set (fields_acc acc s) \<Longrightarrow> CHR '' '' \<notin> set acc \<Longrightarrow> CHR '' '' \<notin> set x"
proof (induction s arbitrary: acc)
  case Nil
  then show ?case by (auto split: if_splits)
next
  case (Cons c s)
  show ?case
  proof (cases "c = CHR '' '' \<or> c = CHR 0x09")
    case True
    with Cons.prems have "x = rev acc \<or> x \<in> set (fields_acc [] s)"
      by (auto split: if_splits)
    then show ?thesis
    proof
      assume "x = rev acc"
      with Cons.prems(2) show ?thesis by simp
    next
      assume "x \<in> set (fields_acc [] s)"
      from Cons.IH [OF this] show ?thesis by simp
    qed
  next
    case False
    with Cons.prems have "x \<in> set (fields_acc (c # acc) s)" by simp
    from Cons.IH [OF this] False Cons.prems(2) show ?thesis by auto
  qed
qed

lemma sh_fields_no_blank: "CHR '' '' \<in> set x \<Longrightarrow> x \<notin> set (sh_fields cmd)"
  using fields_acc_no_blank [of x "[]" cmd] by (auto simp add: sh_fields_def)

section \<open>Results on the replace engines and the selector\<close>

subsection \<open>The example host\<close>

lemma demo_tempDir [simp]:
  "tempDir_of demo_host = ''/tmp/git-edit-0''"
  "tempDir_of demo_host_large = ''/tmp/git-edit-0''"
  "tempDir_of demo_host_busy = ''/tmp/git-edit-0''"
  by (simp_all add: tempDir_of_def demo_host_def demo_host_large_def demo_host_busy_def
      show_nat.simps digit_def)

lemma keeps_file_refl: "keeps_file q w w"
  unfolding keeps_file_def by simp

lemma keeps_file_repo: "keeps_file q w (w\<lparr>repo := r\<rparr>)"
  unfolding keeps_file_def by simp

lemma demo_exec_init:
  "demo_exec (cmd_init ''/tmp/git-edit-0'') w =
     (Inr [], w\<lparr>repo := (repo w)(''/tmp/git-edit-0'' := None)\<rparr>)"
  by (simp add: demo_exec_def Let_def sh_fields_def cmd_init_def)

lemma demo_exec_commit:
  "demo_exec (cmd_commit ''/tmp/git-edit-0'' ''a.txt'') w =
     (case files w ''/tmp/git-edit-0/a.txt'' of
        None \<Rightarrow> (Inl (command_failed (cmd_commit ''/tmp/git-edit-0'' ''a.txt'')), w)
      | Some c \<Rightarrow> (Inr [], w\<lparr>repo := (repo w)(''/tmp/git-edit-0'' \<mapsto> (''a.txt'', c))\<rparr>))"
  by (simp add: demo_exec_def Let_def sh_fields_def cmd_commit_def cmd_init_def resolve_def
      split: option.split)

lemma demo_staging_harmless: "staging_harmless demo_host_large ''/home/u/a.txt''"
proof -
  have ex: "exec demo_host_large = demo_exec"
    by (simp add: demo_host_large_def demo_host_def)
  have bn: "basename ''/home/u/a.txt'' = ''a.txt''" by (simp add: basename_def)
  have pj: "path_join demo_host_large ''/tmp/git-edit-0'' ''a.txt'' = ''/tmp/git-edit-0/a.txt''"
    by (simp add: demo_host_large_def demo_host_def)
  have "leaves_alone demo_host_large (cmd_init ''/tmp/git-edit-0'') q" for q
    unfolding leaves_alone_def ex by (simp add: demo_exec_init keeps_file_repo)
  moreover
  have "keeps_file q w (snd (demo_exec (cmd_commit ''/tmp/git-edit-0'' ''a.txt'') w))" for q w
    by (cases "files w ''/tmp/git-edit-0/a.txt''")
       (simp_all add: demo_exec_commit keeps_file_repo keeps_file_refl)
  then have "leaves_alone demo_host_large (cmd_commit ''/tmp/git-edit-0'' ''a.txt'') q" for q
    unfolding leaves_alone_def ex by simp
  moreover have "\<not> within ''/tmp/git-edit-0'' ''/home/u/a.txt''"
    by (simp add: within_def)
  ultimately show ?thesis
    unfolding staging_harmless_def Let_def demo_tempDir bn pj by simp
qed

subsection \<open>The selector on a large file\<close>

lemma rethrow_run:
  "rethrow m w =
     (case m w of
        (Inl e, w') \<Rightarrow> (Inl (Error (''Failed to perform search/replace: '' @ message e)), w')
      | (Inr x, w') \<Rightarrow> (Inr x, w'))"
  by (simp add: rethrow_def try_catch_def rejected_def split: prod.splits sum.splits)

lemma sys_byteLength: "sys (h\<lparr>byteLength := f\<rparr>) = sys h"
  by (intro ext) (simp add: sys_def)

lemma exec_sh_byteLength: "exec_sh (h\<lparr>byteLength := f\<rparr>) = exec_sh h"
  by (intro ext) (simp add: exec_sh_def)

lemma gitBasedReplace_byteLength:
  "gitBasedReplace (h\<lparr>byteLength := f\<rparr>) = gitBasedReplace h"
  by (intro ext)
     (simp add: gitBasedReplace_def gitBasedReplace_try_def gitBasedReplace_finally_def
      tempDir_of_def fs_mkdir_def fs_copyFile_def fs_readFile_def fs_writeFile_def fs_rm_def
      sys_byteLength exec_sh_byteLength Let_def cong: if_cong)

lemma simpleInMemoryReplace_byteLength:
  "simpleInMemoryReplace (h\<lparr>byteLength := f\<rparr>) = simpleInMemoryReplace h"
  by (intro ext)
     (simp add: simpleInMemoryReplace_def readFile_def writeFile_def sys_byteLength Let_def cong: if_cong)

lemma demo_host_large_engines:
  "gitBasedReplace demo_host_large = gitBasedReplace demo_host"
  "simpleInMemoryReplace demo_host_large = simpleInMemoryReplace demo_host"
  by (simp_all add: demo_host_large_def gitBasedReplace_byteLength
      simpleInMemoryReplace_byteLength)


subsection \<open>The diff/patch engine in a sub-directory of a work tree\<close>











subsection \<open>A file without the search text, and the two engines compared\<close>

text \<open>
  Claim C2.  If the content of the file does not contain the search text, and either
  the file is smaller than 1,000,000 bytes or the two commands that stage the copy
  leave the target and the copy alone and the target is not inside the workspace
  directory, then \<open>performSearchReplace\<close> fails, the content of the file is what it
  was, and no write call was made.  File-system calls may fail at will.
\<close>

theorem performSearchReplace_absent_fails_unchanged:
  assumes target: "files w p = Some c"
    and absent: "\<not> sublist (search b) c"
    and env: "byteLength h c < 1000000 \<or> staging_harmless h p"
  shows "\<exists>e w'. performSearchReplace h p b w = (Inl e, w') \<and>
           files w' p = Some c \<and> written (trace w') = written (trace w)"
proof -
  obtain r w' where run: "performSearchReplace h p b w = (r, w')"
    by (cases "performSearchReplace h p b w")
  from target have "files w p = Some c \<and> written (trace w) = written (trace w)" by simp
  from tripleD [OF performSearchReplace_absent [OF absent env] this run]
  have "(\<exists>e. r = Inl e) \<and> files w' p = Some c \<and> written (trace w') = written (trace w)"
    by (cases r) simp_all
  with run show ?thesis by blast
qed

theorem performSearchReplace_absent_fails_unchanged_witness:
  "\<exists>e w'. performSearchReplace demo_host_large ''/home/u/a.txt''
           \<lparr>search = ''zz'', replace = ''X''\<rparr> (demo_world ''/home/u/a.txt'' ''abc abc'')
         = (Inl e, w') \<and>
        files w' ''/home/u/a.txt'' = Some ''abc abc'' \<and> written (trace w') = []"
proof -
  let ?p = "''/home/u/a.txt''" and ?c = "''abc abc''"
  let ?b = "\<lparr>search = ''zz'', replace = ''X''\<rparr>"
  have target: "files (demo_world ?p ?c) ?p = Some ?c" by (simp add: demo_world_def)
  have absent: "\<not> sublist (search ?b) ?c" by (simp add: sublist_Cons_right)
  from demo_staging_harmless have env: "byteLength demo_host_large ?c < 1000000 \<or>
      staging_harmless demo_host_large ?p" by simp
  from performSearchReplace_absent_fails_unchanged [OF target absent env]
  show ?thesis by (simp add: demo_world_def)
qed

text \<open>
  Claim C3 fails for the same reason.  Started in the same world on the file with the
  content \<^verbatim>\<open>abc\<close>, in which the search text \<^verbatim>\<open>b\<close> occurs exactly once, at index 1, both
  engines succeed; the in-memory engine leaves \<^verbatim>\<open>aXYc\<close> in the file and the diff/patch
  engine, run in a sub-directory of a work tree, leaves \<^verbatim>\<open>abc\<close>.
\<close>

theorem engines_differ_in_work_tree:
  "occurrences ''abc'' ''b'' = [1] \<and>
   fst (gitBasedReplace demo_host ''/home/u/proj/src/a.txt''
          \<lparr>search = ''b'', replace = ''XY''\<rparr> (demo_work_tree ''abc'')) = Inr () \<and>
   files (snd (gitBasedReplace demo_host ''/home/u/proj/src/a.txt''
          \<lparr>search = ''b'', replace = ''XY''\<rparr> (demo_work_tree ''abc'')))
     ''/home/u/proj/src/a.txt'' = Some ''abc'' \<and>
   fst (simpleInMemoryReplace demo_host ''/home/u/proj/src/a.txt''
          \<lparr>search = ''b'', replace = ''XY''\<rparr> (demo_work_tree ''abc'')) = Inr () \<and>
   files (snd (simpleInMemoryReplace demo_host ''/home/u/proj/src/a.txt''
          \<lparr>search = ''b'', replace = ''XY''\<rparr> (demo_work_tree ''abc'')))
     ''/home/u/proj/src/a.txt'' = Some ''aXYc''"
proof -
  let ?p = "''/home/u/proj/src/a.txt''" and ?b = "\<lparr>search = ''b'', replace = ''XY''\<rparr>"
  let ?w = "demo_work_tree ''abc''"
  have once: "occurrences ''abc'' ''b'' = [1]" by code_simp
  have g1: "fst (gitBasedReplace demo_host ?p ?b ?w) = Inr ()" by code_simp
  have g2: "files (snd (gitBasedReplace demo_host ?p ?b ?w)) ?p = Some ''abc''"
    by code_simp
  have m1: "fst (simpleInMemoryReplace demo_host ?p ?b ?w) = Inr ()" by code_simp
  have m2: "files (snd (simpleInMemoryReplace demo_host ?p ?b ?w)) ?p = Some ''aXYc''"
    by code_simp
  from once g1 g2 m1 m2 show ?thesis by simp
qed


section \<open>Results on dispatch, error propagation, cleanup and command lines\<close>

text \<open>
  Claim C6.  Let the size query succeed with \<open>sz\<close>.  If \<open>sz < 1000000\<close>, the
  in-memory engine is run on the world the query left, its outcome is the outcome of
  \<open>performSearchReplace\<close> (an error with the prefix added), and it is the only engine
  entered.  Otherwise the diff/patch engine is run first; if it succeeds, it is the
  only engine entered; if it fails, a warning is logged, the in-memory engine is
  entered once, and its outcome (an error with the prefix added) is the outcome of
  \<open>performSearchReplace\<close>.
\<close>

theorem performSearchReplace_dispatch:
  assumes stat: "fs_stat h p w = (Inr sz, w1)"
  shows "(sz < 1000000 \<longrightarrow>
           (\<exists>r w2. simpleInMemoryReplace h p b w1 = (r, w2) \<and>
              performSearchReplace h p b w =
                (case r of
                   Inl e \<Rightarrow> Inl (Error (''Failed to perform search/replace: '' @ message e))
                 | Inr u \<Rightarrow> Inr u, w2) \<and>
              entered (trace w2) = entered (trace w) @ [''simpleInMemoryReplace''])) \<and>
         (\<not> sz < 1000000 \<longrightarrow>
           (\<exists>g w2. gitBasedReplace h p b w1 = (g, w2) \<and>
              (case g of
                 Inr u \<Rightarrow>
                   performSearchReplace h p b w = (Inr (), w2) \<and>
                   entered (trace w2) = entered (trace w) @ [''gitBasedReplace'']
               | Inl gitError \<Rightarrow>
                   (\<exists>r w3.
                      simpleInMemoryReplace h p b
                        (w2\<lparr>trace := trace w2 @
                           [ConsoleWarn
                              (''Git-based replace failed, falling back to simple replace: '' @
                               error_toString gitError)]\<rparr>) = (r, w3) \<and>
                      performSearchReplace h p b w =
                        (case r of
                           Inl e \<Rightarrow>
                             Inl (Error (''Failed to perform search/replace: '' @ message e))
                         | Inr u \<Rightarrow> Inr u, w3) \<and>
                      entered (trace w3) =
                        entered (trace w) @ [''gitBasedReplace'', ''simpleInMemoryReplace'']))))"
proof (intro conjI impI)
  from fs_stat_trace [OF stat] have e1: "entered (trace w1) = entered (trace w)" by simp
  {
    assume small: "sz < 1000000"
    obtain r w2 where run: "simpleInMemoryReplace h p b w1 = (r, w2)"
      by (cases "simpleInMemoryReplace h p b w1")
    from stat small run
    have "performSearchReplace h p b w =
            (case r of
               Inl e \<Rightarrow> Inl (Error (''Failed to perform search/replace: '' @ message e))
             | Inr u \<Rightarrow> Inr u, w2)"
      by (cases r) (simp_all add: performSearchReplace_def rethrow_run await_def)
    with run simpleInMemoryReplace_entered [OF run] e1
    show "\<exists>r w2. simpleInMemoryReplace h p b w1 = (r, w2) \<and>
              performSearchReplace h p b w =
                (case r of
                   Inl e \<Rightarrow> Inl (Error (''Failed to perform search/replace: '' @ message e))
                 | Inr u \<Rightarrow> Inr u, w2) \<and>
              entered (trace w2) = entered (trace w) @ [''simpleInMemoryReplace'']"
      by simp
  }
  {
    assume large: "\<not> sz < 1000000"
    obtain g w2 where git: "gitBasedReplace h p b w1 = (g, w2)"
      by (cases "gitBasedReplace h p b w1")
    from gitBasedReplace_entered [OF git] e1
    have e2: "entered (trace w2) = entered (trace w) @ [''gitBasedReplace'']" by simp
    have "case g of
                 Inr u \<Rightarrow>
                   performSearchReplace h p b w = (Inr (), w2) \<and>
                   entered (trace w2) = entered (trace w) @ [''gitBasedReplace'']
               | Inl gitError \<Rightarrow>
                   (\<exists>r w3.
                      simpleInMemoryReplace h p b
                        (w2\<lparr>trace := trace w2 @
                           [ConsoleWarn
                              (''Git-based replace failed, falling back to simple replace: '' @
                               error_toString gitError)]\<rparr>) = (r, w3) \<and>
                      performSearchReplace h p b w =
                        (case r of
                           Inl e \<Rightarrow>
                             Inl (Error (''Failed to perform search/replace: '' @ message e))
                         | Inr u \<Rightarrow> Inr u, w3) \<and>
                      entered (trace w3) =
                        entered (trace w) @ [''gitBasedReplace'', ''simpleInMemoryReplace''])"
    proof (cases g)
      case (Inr u)
      with stat large git e2 show ?thesis
        by (simp add: performSearchReplace_def rethrow_run await_def try_catch_def)
    next
      case (Inl gitError)
      let ?w = "w2\<lparr>trace := trace w2 @
                   [ConsoleWarn
                      (''Git-based replace failed, falling back to simple replace: '' @
                       error_toString gitError)]\<rparr>"
      obtain r w3 where run: "simpleInMemoryReplace h p b ?w = (r, w3)"
        by (cases "simpleInMemoryReplace h p b ?w")
      from stat large git Inl run
      have "performSearchReplace h p b w =
              (case r of
                 Inl e \<Rightarrow> Inl (Error (''Failed to perform search/replace: '' @ message e))
               | Inr u \<Rightarrow> Inr u, w3)"
        by (cases r)
           (simp_all add: performSearchReplace_def rethrow_run await_def try_catch_def
              console_warn_def emit_def)
      with run simpleInMemoryReplace_entered [OF run] e2 Inl show ?thesis by simp
    qed
    with git
    show "\<exists>g w2. gitBasedReplace h p b w1 = (g, w2) \<and>
              (case g of
                 Inr u \<Rightarrow>
                   performSearchReplace h p b w = (Inr (), w2) \<and>
                   entered (trace w2) = entered (trace w) @ [''gitBasedReplace'']
               | Inl gitError \<Rightarrow>
                   (\<exists>r w3.
                      simpleInMemoryReplace h p b
                        (w2\<lparr>trace := trace w2 @
                           [ConsoleWarn
                              (''Git-based replace failed, falling back to simple replace: '' @
                               error_toString gitError)]\<rparr>) = (r, w3) \<and>
                      performSearchReplace h p b w =
                        (case r of
                           Inl e \<Rightarrow>
                             Inl (Error (''Failed to perform search/replace: '' @ message e))
                         | Inr u \<Rightarrow> Inr u, w3) \<and>
                      entered (trace w3) =
                        entered (trace w) @ [''gitBasedReplace'', ''simpleInMemoryReplace'']))"
      by blast
  }
qed

theorem performSearchReplace_dispatch_witness:
  "fs_stat demo_host_large ''/home/u/a.txt'' (demo_world ''/home/u/a.txt'' ''abc'') =
     (Inr 1000003,
      (demo_world ''/home/u/a.txt'' ''abc'')\<lparr>trace := [Sys (Stat ''/home/u/a.txt'')]\<rparr>) \<and>
   fst (performSearchReplace demo_host_large ''/home/u/a.txt''
          \<lparr>search = ''zz'', replace = ''X''\<rparr> (demo_world ''/home/u/a.txt'' ''abc'')) =
     Inl (Error ''Failed to perform search/replace: Search content not found in /home/u/a.txt'') \<and>
   entered (trace (snd (performSearchReplace demo_host_large ''/home/u/a.txt''
          \<lparr>search = ''zz'', replace = ''X''\<rparr> (demo_world ''/home/u/a.txt'' ''abc'')))) =
     [''gitBasedReplace'', ''simpleInMemoryReplace'']"
proof -
  let ?p = "''/home/u/a.txt''" and ?b = "\<lparr>search = ''zz'', replace = ''X''\<rparr>"
  let ?w = "demo_world ?p ''abc''"
  let ?w1 = "?w\<lparr>trace := [Sys (Stat ?p)]\<rparr>"
  have stat: "fs_stat demo_host_large ?p ?w = (Inr 1000003, ?w1)"
    by (simp add: fs_stat_def sys_def Let_def demo_host_large_def demo_host_def demo_world_def)
  from performSearchReplace_dispatch [OF stat, of ?b]
  obtain g w2 where git: "gitBasedReplace demo_host_large ?p ?b ?w1 = (g, w2)"
    and rest: "case g of
                 Inr u \<Rightarrow>
                   performSearchReplace demo_host_large ?p ?b ?w = (Inr (), w2) \<and>
                   entered (trace w2) = entered (trace ?w) @ [''gitBasedReplace'']
               | Inl gitError \<Rightarrow>
                   (\<exists>r w3.
                      simpleInMemoryReplace demo_host_large ?p ?b
                        (w2\<lparr>trace := trace w2 @
                           [ConsoleWarn
                              (''Git-based replace failed, falling back to simple replace: '' @
                               error_toString gitError)]\<rparr>) = (r, w3) \<and>
                      performSearchReplace demo_host_large ?p ?b ?w =
                        (case r of
                           Inl e \<Rightarrow>
                             Inl (Error (''Failed to perform search/replace: '' @ message e))
                         | Inr u \<Rightarrow> Inr u, w3) \<and>
                      entered (trace w3) =
                        entered (trace ?w) @ [''gitBasedReplace'', ''simpleInMemoryReplace''])"
    by auto
  have "fst (gitBasedReplace demo_host ?p ?b ?w1) =
          Inl (Error ''Search content not found in /home/u/a.txt'')"
    by code_simp
  with git have g: "g = Inl (Error ''Search content not found in /home/u/a.txt'')"
    and w2: "w2 = snd (gitBasedReplace demo_host ?p ?b ?w1)"
    by (simp_all add: demo_host_large_engines)
  from rest [unfolded g] obtain r w3 where
    run: "simpleInMemoryReplace demo_host_large ?p ?b
            (w2\<lparr>trace := trace w2 @
               [ConsoleWarn
                  (''Git-based replace failed, falling back to simple replace: '' @
                   error_toString (Error ''Search content not found in /home/u/a.txt''))]\<rparr>)
          = (r, w3)"
    and res: "performSearchReplace demo_host_large ?p ?b ?w =
                (case r of
                   Inl e \<Rightarrow> Inl (Error (''Failed to perform search/replace: '' @ message e))
                 | Inr u \<Rightarrow> Inr u, w3)"
    and ent: "entered (trace w3) =
                entered (trace ?w) @ [''gitBasedReplace'', ''simpleInMemoryReplace'']"
    by auto
  have "fst (simpleInMemoryReplace demo_host ?p ?b
            ((snd (gitBasedReplace demo_host ?p ?b ?w1))\<lparr>trace :=
               trace (snd (gitBasedReplace demo_host ?p ?b ?w1)) @
               [ConsoleWarn
                  (''Git-based replace failed, falling back to simple replace: '' @
                   error_toString (Error ''Search content not found in /home/u/a.txt''))]\<rparr>))
        = Inl (Error ''Search content not found in /home/u/a.txt'')"
    by code_simp
  with run w2 have r: "r = Inl (Error ''Search content not found in /home/u/a.txt'')"
    by (simp add: demo_host_large_engines)
  from res r ent stat show ?thesis by (simp add: demo_world_def)
qed

text \<open>
  Claim C7, as stated, fails: for a small file without the search text the in-memory
  engine rejects with \<^verbatim>\<open>Search content not found in ...\<close>, and the caller of
  \<open>performSearchReplace\<close> sees a different error, whose message carries the prefix
  \<^verbatim>\<open>Failed to perform search/replace: \<close>.
\<close>

theorem performSearchReplace_error_counterexample:
  "fst (fs_stat demo_host ''/home/u/a.txt'' (demo_world ''/home/u/a.txt'' ''abc'')) = Inr 3 \<and>
   fst (simpleInMemoryReplace demo_host ''/home/u/a.txt'' \<lparr>search = ''zz'', replace = ''X''\<rparr>
          (snd (fs_stat demo_host ''/home/u/a.txt'' (demo_world ''/home/u/a.txt'' ''abc'')))) =
     Inl (Error ''Search content not found in /home/u/a.txt'') \<and>
   fst (performSearchReplace demo_host ''/home/u/a.txt'' \<lparr>search = ''zz'', replace = ''X''\<rparr>
          (demo_world ''/home/u/a.txt'' ''abc'')) =
     Inl (Error ''Failed to perform search/replace: Search content not found in /home/u/a.txt'') \<and>
   fst (performSearchReplace demo_host ''/home/u/a.txt'' \<lparr>search = ''zz'', replace = ''X''\<rparr>
          (demo_world ''/home/u/a.txt'' ''abc'')) \<noteq>
   fst (simpleInMemoryReplace demo_host ''/home/u/a.txt'' \<lparr>search = ''zz'', replace = ''X''\<rparr>
          (snd (fs_stat demo_host ''/home/u/a.txt'' (demo_world ''/home/u/a.txt'' ''abc''))))"
proof -
  let ?p = "''/home/u/a.txt''" and ?b = "\<lparr>search = ''zz'', replace = ''X''\<rparr>"
  let ?w = "demo_world ?p ''abc''"
  let ?w1 = "?w\<lparr>trace := [Sys (Stat ?p)]\<rparr>"
  let ?w2 = "?w\<lparr>trace := [Sys (Stat ?p), Enter ''simpleInMemoryReplace'', Sys (ReadText ?p)]\<rparr>"
  have stat: "fs_stat demo_host ?p ?w = (Inr 3, ?w1)"
    by (simp add: fs_stat_def sys_def Let_def demo_host_def demo_world_def)
  have run: "simpleInMemoryReplace demo_host ?p ?b ?w1 =
               (Inl (Error ''Search content not found in /home/u/a.txt''), ?w2)"
    by (simp add: simpleInMemoryReplace_def await_def emit_def readFile_def sys_def Let_def
        rejected_def demo_host_def demo_world_def indexOf_def)
  have perf: "performSearchReplace demo_host ?p ?b ?w =
               (Inl (Error ''Failed to perform search/replace: Search content not found in /home/u/a.txt''), ?w2)"
    by (simp add: performSearchReplace_def rethrow_run await_def stat run)
  show ?thesis by (simp add: stat run perf)
qed

text \<open>
  Claim C7, amended.  For a file smaller than 1,000,000 bytes, when the in-memory
  engine rejects with an error, \<open>performSearchReplace\<close> rejects, in the world the
  engine left, with a new error whose message is \<^verbatim>\<open>Failed to perform search/replace: \<close>
  followed by the message of the engine's error.
\<close>

theorem performSearchReplace_wraps_engine_error:
  assumes "fs_stat h p w = (Inr sz, w1)"
    and "sz < 1000000"
    and "simpleInMemoryReplace h p b w1 = (Inl e, w2)"
  shows "performSearchReplace h p b w =
           (Inl (Error (''Failed to perform search/replace: '' @ message e)), w2)"
  using assms by (simp add: performSearchReplace_def rethrow_run await_def)

theorem performSearchReplace_wraps_engine_error_witness:
  "performSearchReplace demo_host ''/home/u/a.txt'' \<lparr>search = ''zz'', replace = ''X''\<rparr>
     (demo_world ''/home/u/a.txt'' ''abc'') =
   (Inl (Error ''Failed to perform search/replace: Search content not found in /home/u/a.txt''),
    (demo_world ''/home/u/a.txt'' ''abc'')
      \<lparr>trace := [Sys (Stat ''/home/u/a.txt''), Enter ''simpleInMemoryReplace'',
                 Sys (ReadText ''/home/u/a.txt'')]\<rparr>)"
proof -
  let ?p = "''/home/u/a.txt''" and ?b = "\<lparr>search = ''zz'', replace = ''X''\<rparr>"
  let ?w = "demo_world ?p ''abc''"
  let ?w1 = "?w\<lparr>trace := [Sys (Stat ?p)]\<rparr>"
  let ?w2 = "?w\<lparr>trace := [Sys (Stat ?p), Enter ''simpleInMemoryReplace'', Sys (ReadText ?p)]\<rparr>"
  have stat: "fs_stat demo_host ?p ?w = (Inr 3, ?w1)"
    by (simp add: fs_stat_def sys_def Let_def demo_host_def demo_world_def)
  have small: "(3::nat) < 1000000" by simp
  have run: "simpleInMemoryReplace demo_host ?p ?b ?w1 =
               (Inl (Error ''Search content not found in /home/u/a.txt''), ?w2)"
    by (simp add: simpleInMemoryReplace_def await_def emit_def readFile_def sys_def Let_def
        rejected_def demo_host_def demo_world_def indexOf_def)
  from performSearchReplace_wraps_engine_error [OF stat small run] show ?thesis by simp
qed

text \<open>
  Claim C8.  Whatever the outcome of the \<^verbatim>\<open>try\<close> block of \<open>gitBasedReplace\<close>, success
  or an error of any step, it is the outcome of the invocation, and the call that
  removes the workspace directory is made next.  If that call succeeds, neither the
  directory nor anything below it exists afterwards.  If it fails, the failure is
  logged on the console and nothing else changes.
\<close>

theorem gitBasedReplace_cleanup:
  assumes "gitBasedReplace_try h p b (w\<lparr>trace := trace w @ [Enter ''gitBasedReplace'']\<rparr>)
             = (r, w1)"
  shows "\<exists>w'. gitBasedReplace h p b w = (r, w') \<and>
           (case fault h (Rm (tempDir_of h)) w1 of
              None \<Rightarrow>
                trace w' = trace w1 @ [Sys (Rm (tempDir_of h))] \<and>
                (\<forall>q. within (tempDir_of h) q \<longrightarrow> files w' q = None \<and> q \<notin> dirs w')
            | Some e \<Rightarrow>
                trace w' =
                  trace w1 @
                  [Sys (Rm (tempDir_of h)),
                   ConsoleError (''Failed to clean up temp directory: '' @ error_toString e)] \<and>
                files w' = files w1 \<and> dirs w' = dirs w1)"
proof -
  let ?w' = "snd (gitBasedReplace_finally h w1)"
  from assms have "gitBasedReplace h p b w = (r, ?w')"
    by (simp add: gitBasedReplace_def await_emit try_finally_def gitBasedReplace_finally_run)
  moreover have "case fault h (Rm (tempDir_of h)) w1 of
              None \<Rightarrow>
                trace ?w' = trace w1 @ [Sys (Rm (tempDir_of h))] \<and>
                (\<forall>q. within (tempDir_of h) q \<longrightarrow> files ?w' q = None \<and> q \<notin> dirs ?w')
            | Some e \<Rightarrow>
                trace ?w' =
                  trace w1 @
                  [Sys (Rm (tempDir_of h)),
                   ConsoleError (''Failed to clean up temp directory: '' @ error_toString e)] \<and>
                files ?w' = files w1 \<and> dirs ?w' = dirs w1"
    by (cases "fault h (Rm (tempDir_of h)) w1") (simp_all add: gitBasedReplace_finally_run)
  ultimately show ?thesis by blast
qed

theorem gitBasedReplace_cleanup_witness:
  "fst (gitBasedReplace demo_host_busy ''/home/u/a.txt'' \<lparr>search = ''b'', replace = ''X''\<rparr>
          (demo_world ''/home/u/a.txt'' ''abc'')) = Inr () \<and>
   last (trace (snd (gitBasedReplace demo_host_busy ''/home/u/a.txt''
          \<lparr>search = ''b'', replace = ''X''\<rparr> (demo_world ''/home/u/a.txt'' ''abc'')))) =
     ConsoleError ''Failed to clean up temp directory: Error: EBUSY: resource busy or locked'' \<and>
   fst (gitBasedReplace demo_host ''/home/u/a.txt'' \<lparr>search = ''zz'', replace = ''X''\<rparr>
          (demo_world ''/home/u/a.txt'' ''abc'')) =
     Inl (Error ''Search content not found in /home/u/a.txt'') \<and>
   ''/tmp/git-edit-0'' \<notin> dirs (snd (gitBasedReplace demo_host ''/home/u/a.txt''
          \<lparr>search = ''zz'', replace = ''X''\<rparr> (demo_world ''/home/u/a.txt'' ''abc''))) \<and>
   files (snd (gitBasedReplace demo_host ''/home/u/a.txt''
          \<lparr>search = ''zz'', replace = ''X''\<rparr> (demo_world ''/home/u/a.txt'' ''abc'')))
     ''/tmp/git-edit-0/a.txt'' = None"
proof -
  let ?p = "''/home/u/a.txt''" and ?w = "demo_world ''/home/u/a.txt'' ''abc''"
  let ?we = "?w\<lparr>trace := trace ?w @ [Enter ''gitBasedReplace'']\<rparr>"
  let ?b1 = "\<lparr>search = ''b'', replace = ''X''\<rparr>" and ?b2 = "\<lparr>search = ''zz'', replace = ''X''\<rparr>"
  let ?t1 = "gitBasedReplace_try demo_host_busy ?p ?b1 ?we"
  let ?t2 = "gitBasedReplace_try demo_host ?p ?b2 ?we"
  have busy: "fault demo_host_busy (Rm (tempDir_of demo_host_busy)) w1 =
                Some (Error ''EBUSY: resource busy or locked'')" for w1
    by (simp only: demo_tempDir) (simp add: demo_host_busy_def)
  have free: "fault demo_host (Rm (tempDir_of demo_host)) w1 = None" for w1
    by (simp only: demo_tempDir) (simp add: demo_host_def)
  have r1: "fst ?t1 = Inr ()" by code_simp
  have r2: "fst ?t2 = Inl (Error ''Search content not found in /home/u/a.txt'')" by code_simp
  have "?t1 = (fst ?t1, snd ?t1)" by simp
  from gitBasedReplace_cleanup [OF this] obtain w' where
    a1: "gitBasedReplace demo_host_busy ?p ?b1 ?w = (fst ?t1, w')" and
    a2: "trace w' = trace (snd ?t1) @
           [Sys (Rm (tempDir_of demo_host_busy)),
            ConsoleError (''Failed to clean up temp directory: '' @
                          error_toString (Error ''EBUSY: resource busy or locked''))]"
    unfolding busy by auto
  have "?t2 = (fst ?t2, snd ?t2)" by simp
  from gitBasedReplace_cleanup [OF this] obtain w'' where
    b1: "gitBasedReplace demo_host ?p ?b2 ?w = (fst ?t2, w'')" and
    b2: "\<forall>q. within (tempDir_of demo_host) q \<longrightarrow> files w'' q = None \<and> q \<notin> dirs w''"
    unfolding free by auto
  from b2 have "files w'' ''/tmp/git-edit-0/a.txt'' = None" "''/tmp/git-edit-0'' \<notin> dirs w''"
    by (simp_all add: within_def)
  with a1 a2 b1 r1 r2 show ?thesis by simp
qed

lemma gitBasedReplace_executed:
  "set (executed (trace (snd (gitBasedReplace h p b w)))) \<subseteq>
     set (executed (trace w)) \<union>
     {cmd_init (tempDir_of h), cmd_commit (tempDir_of h) (basename p), cmd_diff (tempDir_of h),
      cmd_apply (dirname p) (path_join h (tempDir_of h) ''changes.patch''),
      cmd_apply3way (dirname p) (path_join h (tempDir_of h) ''changes.patch'')}"
proof -
  let ?we = "w\<lparr>trace := trace w @ [Enter ''gitBasedReplace'']\<rparr>"
  obtain r w1 where t: "gitBasedReplace_try h p b ?we = (r, w1)"
    by (cases "gitBasedReplace_try h p b ?we")
  from gitBasedReplace_try_trace [OF t] obtain evs where
    evs: "trace w1 = trace w @ Enter ''gitBasedReplace'' # evs" "set evs \<subseteq> try_events h p"
    by auto
  from t have "snd (gitBasedReplace h p b w) = snd (gitBasedReplace_finally h w1)"
    by (simp add: gitBasedReplace_def await_emit try_finally_def gitBasedReplace_finally_run)
  then have "executed (trace (snd (gitBasedReplace h p b w))) = executed (trace w1)"
    by (simp add: gitBasedReplace_finally_run split: option.splits)
  with evs(1) try_events_executed [OF evs(2)] show ?thesis by auto
qed

text \<open>
  Claim C9.  Every command line \<open>gitBasedReplace\<close> hands to the shell is one of five
  texts, each the concatenation of fixed text with the workspace directory, the base
  name of the target or the directory of the target, with nothing put around them.
  Hence, when the base name contains a blank, it is not among the words the commit
  command line splits into; and when the directory contains a blank, it is not among
  the words of either apply command line.
\<close>

theorem gitBasedReplace_command_lines:
  \<open>set (executed (trace (snd (gitBasedReplace h p b w)))) \<subseteq>
     set (executed (trace w)) \<union>
     {''cd '' @ tempDir_of h @
        '' && git init && git config user.email "temp@example.com" && git config user.name "Temp User"'',
      ''cd '' @ tempDir_of h @ '' && git add '' @ basename p @
        '' && git commit -m "Original file"'',
      ''cd '' @ tempDir_of h @ '' && git diff'',
      ''cd '' @ dirname p @ '' && git apply '' @ path_join h (tempDir_of h) ''changes.patch'',
      ''cd '' @ dirname p @ '' && git apply --3way '' @
        path_join h (tempDir_of h) ''changes.patch''} \<and>
   (CHR '' '' \<in> set (basename p) \<longrightarrow>
      basename p \<notin> set (sh_fields (''cd '' @ tempDir_of h @ '' && git add '' @ basename p @
                                   '' && git commit -m "Original file"''))) \<and>
   (CHR '' '' \<in> set (dirname p) \<longrightarrow>
      dirname p \<notin> set (sh_fields (''cd '' @ dirname p @ '' && git apply '' @
                                   path_join h (tempDir_of h) ''changes.patch'')) \<and>
      dirname p \<notin> set (sh_fields (''cd '' @ dirname p @ '' && git apply --3way '' @
                                   path_join h (tempDir_of h) ''changes.patch'')))\<close>
  using gitBasedReplace_executed [of h p b w]
  by (simp add: sh_fields_no_blank cmd_init_def cmd_commit_def cmd_diff_def cmd_apply_def
      cmd_apply3way_def)

theorem gitBasedReplace_command_lines_witness:
  \<open>basename ''/home/u/my docs/a b.txt'' = ''a b.txt'' \<and>
   dirname ''/home/u/my docs/a b.txt'' = ''/home/u/my docs'' \<and>
   executed (trace (snd (gitBasedReplace demo_host ''/home/u/my docs/a b.txt''
       \<lparr>search = ''b'', replace = ''X''\<rparr> (demo_world ''/home/u/my docs/a b.txt'' ''abc'')))) =
     [''cd /tmp/git-edit-0 && git init && git config user.email "temp@example.com" && git config user.name "Temp User"'',
      ''cd /tmp/git-edit-0 && git add a b.txt && git commit -m "Original file"''] \<and>
   sh_fields ''cd /tmp/git-edit-0 && git add a b.txt && git commit -m "Original file"'' =
     [''cd'', ''/tmp/git-edit-0'', ''&&'', ''git'', ''add'', ''a'', ''b.txt'', ''&&'', ''git'',
      ''commit'', ''-m'', ''"Original'', ''file"''] \<and>
   ''a b.txt'' \<notin> set (sh_fields
      ''cd /tmp/git-edit-0 && git add a b.txt && git commit -m "Original file"'') \<and>
   ''/home/u/my docs'' \<notin> set (sh_fields
      ''cd /home/u/my docs && git apply /tmp/git-edit-0/changes.patch'')\<close>
proof -
  let ?p = "''/home/u/my docs/a b.txt''"
  have bn: "basename ?p = ''a b.txt''" by (simp add: basename_def)
  have dn: "dirname ?p = ''/home/u/my docs''" by (simp add: dirname_def)
  have pj: "path_join demo_host ''/tmp/git-edit-0'' ''changes.patch'' =
              ''/tmp/git-edit-0/changes.patch''" by (simp add: demo_host_def)
  have ex: "executed (trace (snd (gitBasedReplace demo_host ?p
       \<lparr>search = ''b'', replace = ''X''\<rparr> (demo_world ?p ''abc'')))) =
     [cmd_init ''/tmp/git-edit-0'', cmd_commit ''/tmp/git-edit-0'' ''a b.txt'']"
    by code_simp
  have fl: "sh_fields (cmd_commit ''/tmp/git-edit-0'' ''a b.txt'') =
     [''cd'', ''/tmp/git-edit-0'', ''&&'', ''git'', ''add'', ''a'', ''b.txt'', ''&&'', ''git'',
      ''commit'', ''-m'', CHR 0x22 # ''Original'', ''file'' @ [CHR 0x22]]"
    by (simp add: sh_fields_def cmd_commit_def)
  from gitBasedReplace_command_lines
         [of demo_host ?p "\<lparr>search = ''b'', replace = ''X''\<rparr>" "demo_world ?p ''abc''"]
  have "''a b.txt'' \<notin> set (sh_fields (''cd '' @ ''/tmp/git-edit-0'' @ '' && git add '' @
            ''a b.txt'' @ '' && git commit -m '' @ CHR 0x22 # ''Original file'' @ [CHR 0x22]))"
    and "''/home/u/my docs'' \<notin> set (sh_fields (''cd '' @ ''/home/u/my docs'' @
            '' && git apply '' @ ''/tmp/git-edit-0/changes.patch''))"
    unfolding bn dn demo_tempDir pj by simp_all
  with bn dn ex fl show ?thesis
    by (simp add: cmd_init_def cmd_commit_def)
qed

text \<open>
  Claim C10.  The empty search text is found at index 0 of every content.  With an
  empty search text and no failing file-system call, the in-memory engine succeeds on
  every existing file and leaves the replace text followed by the old content.
\<close>

theorem empty_search_prepends:
  assumes "files w p = Some c" and "no_faults h" and "search b = []"
  shows "indexOf c (search b) = 0 \<and>
         (\<exists>w'. simpleInMemoryReplace h p b w = (Inr (), w') \<and>
               files w' p = Some (replace b @ c))"
proof -
  have idx: "indexOf c [] = 0" by (cases c) (simp_all add: indexOf_def)
  have fo: "first_occurrence c (search b) [] c"
    using assms(3) by (simp add: first_occurrence_def)
  obtain r w' where run: "simpleInMemoryReplace h p b w = (r, w')"
    by (cases "simpleInMemoryReplace h p b w")
  from tripleD [OF simpleInMemoryReplace_found [OF assms(2) fo] assms(1) run]
  have "r = Inr () \<and> files w' p = Some (replace b @ c)" by (cases r) simp_all
  with run idx assms(3) show ?thesis by simp
qed

theorem empty_search_prepends_witness:
  "parseEditBlock ''/home/u/a.txt\<newline><<<<<<< SEARCH\<newline>=======\<newline>new\<newline>>>>>>>> REPLACE'' =
     Inr \<lparr>filePath = ''/home/u/a.txt'', searchReplace = \<lparr>search = '''', replace = ''new''\<rparr>\<rparr> \<and>
   indexOf ''abc'' '''' = 0 \<and>
   (\<exists>w'. simpleInMemoryReplace demo_host ''/home/u/a.txt'' \<lparr>search = '''', replace = ''new''\<rparr>
           (demo_world ''/home/u/a.txt'' ''abc'') = (Inr (), w') \<and>
         files w' ''/home/u/a.txt'' = Some ''newabc'')"
proof -
  have parse: "parseEditBlock
      ''/home/u/a.txt\<newline><<<<<<< SEARCH\<newline>=======\<newline>new\<newline>>>>>>>> REPLACE'' =
     Inr \<lparr>filePath = ''/home/u/a.txt'', searchReplace = \<lparr>search = '''', replace = ''new''\<rparr>\<rparr>"
    by (simp add: parseEditBlock_def Let_def arrayIndexOf_def slice_def trim_def
        isWhiteSpace_def SEARCH_MARKER_def DIVIDER_MARKER_def REPLACE_MARKER_def)
  have f: "files (demo_world ''/home/u/a.txt'' ''abc'') ''/home/u/a.txt'' = Some ''abc''"
    by (simp add: demo_world_def)
  have nf: "no_faults demo_host" by (simp add: no_faults_def demo_host_def)
  have s: "search \<lparr>search = '''', replace = ''new''\<rparr> = []" by simp
  from empty_search_prepends [OF f nf s] parse show ?thesis by simp
qed

end
